theory Spec2Isabelle
  imports Complex_Main "HOL-Library.Word" "HOL-Library.Sublist" "HOL-Library.Log_Nat"
begin

section \<open>Python values used by the voice agent\<close>

text \<open>
  Raw audio is a Python \<open>bytes\<close> value: a list of 8-bit words. Text is a Python \<open>str\<close>;
  it is modelled as a list of code points below 256. The thresholds of the segment
  collector are computed in binary floating point, as the source computes them; time
  stamps and durations are exact rationals.
\<close>

type_synonym byte_string = "8 word list"

datatype exn = ZeroDivisionError | ValueError | OverflowError | APIError | Exception

text \<open>\<open>int(x)\<close> on a number: truncation toward zero.\<close>

definition py_int :: "rat \<Rightarrow> int" where
  "py_int q = (if 0 \<le> q then \<lfloor>q\<rfloor> else \<lceil>q\<rceil>)"

subsection \<open>Floats\<close>

text \<open>
  A Python \<open>float\<close> is an IEEE 754 double: a finite value, an infinity or a NaN. The finite
  values are the rationals \<open>m * 2^e\<close> with \<open>|m| < 2^53\<close> and \<open>e \<ge> -1074\<close> below \<open>2^1024\<close> in
  magnitude; negative zero is not told apart from zero (nothing modelled here can see the
  difference). Every operation rounds its exact result to the nearest double, ties to the
  even one, and a result of magnitude \<open>2^1024\<close> or more after rounding (binade 1024 or
  more) is an infinity.

  \<open>binade q\<close> is the exponent \<open>e\<close> with \<open>2^e \<le> |q| < 2^(e+1)\<close>, for \<open>q\<close> other than zero.
\<close>

datatype py_float = Finite rat | PosInf | NegInf | NaN

definition binade :: "rat \<Rightarrow> int" where
  "binade q =
     (let a = \<bar>q\<bar>
      in if 1 \<le> a then bitlen \<lfloor>a\<rfloor> - 1 else - bitlen (\<lceil>1 / a\<rceil> - 1))"

definition pow2 :: "int \<Rightarrow> rat" where
  "pow2 k = (if 0 \<le> k then 2 ^ nat k else 1 / 2 ^ nat (- k))"

definition round_half_even :: "rat \<Rightarrow> int" where
  "round_half_even m =
     (let f = \<lfloor>m\<rfloor>; d = m - of_int f
      in if d < 1 / 2 then f else if 1 / 2 < d then f + 1 else if even f then f else f + 1)"

definition float_round :: "rat \<Rightarrow> py_float" where
  "float_round q =
     (if q = 0 then Finite 0
      else let u = pow2 (max (binade q) (- 1022) - 52);
               r = of_int (round_half_even (q / u)) * u
           in if r \<noteq> 0 \<and> 1024 \<le> binade r then (if 0 < q then PosInf else NegInf)
              else Finite r)"

text \<open>
  An \<open>int\<close> that meets a float in a product is converted first; the conversion raises
  \<open>OverflowError\<close> when the integer is too large for a double.
\<close>

definition float_of_int :: "int \<Rightarrow> exn + py_float" where
  "float_of_int n =
     (case float_round (of_int n) of Finite r \<Rightarrow> Inr (Finite r) | _ \<Rightarrow> Inl OverflowError)"

fun float_mul :: "py_float \<Rightarrow> py_float \<Rightarrow> py_float" where
  "float_mul NaN y = NaN"
| "float_mul x NaN = NaN"
| "float_mul (Finite a) (Finite b) = float_round (a * b)"
| "float_mul (Finite a) PosInf = (if a = 0 then NaN else if 0 < a then PosInf else NegInf)"
| "float_mul (Finite a) NegInf = (if a = 0 then NaN else if 0 < a then NegInf else PosInf)"
| "float_mul PosInf (Finite b) = (if b = 0 then NaN else if 0 < b then PosInf else NegInf)"
| "float_mul NegInf (Finite b) = (if b = 0 then NaN else if 0 < b then NegInf else PosInf)"
| "float_mul PosInf PosInf = PosInf"
| "float_mul PosInf NegInf = NegInf"
| "float_mul NegInf PosInf = NegInf"
| "float_mul NegInf NegInf = PosInf"

text \<open>\<open>int(x)\<close> on a float, and the comparison \<open>n > x\<close> of an \<open>int\<close> with a float (it is exact).\<close>

definition int_of_float :: "py_float \<Rightarrow> exn + int" where
  "int_of_float x =
     (case x of
        Finite q \<Rightarrow> Inr (py_int q)
      | PosInf \<Rightarrow> Inl OverflowError
      | NegInf \<Rightarrow> Inl OverflowError
      | NaN \<Rightarrow> Inl ValueError)"

fun int_gt_float :: "int \<Rightarrow> py_float \<Rightarrow> bool" where
  "int_gt_float n (Finite q) = (q < of_int n)"
| "int_gt_float n PosInf = False"
| "int_gt_float n NegInf = True"
| "int_gt_float n NaN = False"

text \<open>The literals \<open>0.8\<close> and \<open>0.9\<close>: the doubles nearest to 4/5 and to 9/10.\<close>

definition float_0_8 :: py_float where
  "float_0_8 = Finite (3602879701896397 / 4503599627370496)"

definition float_0_9 :: py_float where
  "float_0_9 = Finite (8106479329266893 / 9007199254740992)"

subsection \<open>Sequences\<close>

text \<open>
  A slice bound \<open>i\<close> on a sequence of length \<open>len\<close>: a negative bound counts from the end,
  and every bound is clamped into \<open>0..len\<close>.
\<close>

definition py_bound :: "int \<Rightarrow> nat \<Rightarrow> nat" where
  "py_bound i len = (if i < 0 then nat (i + int len) else min (nat i) len)"

text \<open>\<open>xs[i:j]\<close> and \<open>xs[i:]\<close>.\<close>

definition py_slice :: "'a list \<Rightarrow> int \<Rightarrow> int \<Rightarrow> 'a list" where
  "py_slice xs i j =
     (let a = py_bound i (length xs); b = py_bound j (length xs)
      in take (b - a) (drop a xs))"

definition py_slice_from :: "'a list \<Rightarrow> int \<Rightarrow> 'a list" where
  "py_slice_from xs i = drop (py_bound i (length xs)) xs"

text \<open>\<open>collections.deque(maxlen=n)\<close>: appending to a full deque evicts the oldest entry.\<close>

record 'a deque =
  maxlen :: nat
  items :: "'a list"

definition deque_new :: "int \<Rightarrow> exn + 'a deque" where
  "deque_new n = (if n < 0 then Inl ValueError else Inr \<lparr>maxlen = nat n, items = []\<rparr>)"

definition deque_append :: "'a deque \<Rightarrow> 'a \<Rightarrow> 'a deque" where
  "deque_append d x =
     (if maxlen d = 0 then d
      else if length (items d) \<ge> maxlen d then d\<lparr>items := tl (items d) @ [x]\<rparr>
      else d\<lparr>items := items d @ [x]\<rparr>)"

definition deque_clear :: "'a deque \<Rightarrow> 'a deque" where
  "deque_clear d = d\<lparr>items := []\<rparr>"

section \<open>vad_utils: frames and the voice-activity collector\<close>

record Frame =
  bytes :: byte_string
  timestamp :: rat
  duration :: rat

text \<open>
  The classifier \<open>webrtcvad.Vad\<close> is an external library object: \<open>vad v buf rate\<close> is the
  outcome of \<open>self.vad.is_speech(buf, rate)\<close>, which either raises or returns a boolean.
\<close>

record VADAudio =
  vad :: "byte_string \<Rightarrow> int \<Rightarrow> exn + bool"
  sample_rate :: int
  frame_duration :: int
  frame_size :: int
  padding_ms :: int
  num_padding_frames :: int
  ring_buffer :: "(Frame \<times> bool) deque"

definition VADAudio_init :: "(byte_string \<Rightarrow> int \<Rightarrow> exn + bool) \<Rightarrow> int \<Rightarrow> int \<Rightarrow> exn + VADAudio" where
  "VADAudio_init classifier rate fd =
     (let fs = py_int (of_int (rate * fd) / 1000) * 2;
          pad = 300
      in if fd = 0 then Inl ZeroDivisionError
         else let npf = py_int (of_int pad / of_int fd)
              in case deque_new npf of
                   Inl e \<Rightarrow> Inl e
                 | Inr rb \<Rightarrow> Inr \<lparr>vad = classifier, sample_rate = rate, frame_duration = fd,
                                 frame_size = fs, padding_ms = pad, num_padding_frames = npf,
                                 ring_buffer = rb\<rparr>)"

definition is_speech :: "VADAudio \<Rightarrow> byte_string \<Rightarrow> exn + bool" where
  "is_speech v audio_chunk = vad v audio_chunk (sample_rate v)"

text \<open>
  The \<open>while\<close> loop of \<open>frame_generator\<close>. It need not terminate (a frame size of zero never
  advances the offset), so it is a partial function: \<open>None\<close> is a loop that never ends.
\<close>

partial_function (option) frame_loop ::
  "int \<Rightarrow> rat \<Rightarrow> byte_string \<Rightarrow> int \<Rightarrow> rat \<Rightarrow> Frame list \<Rightarrow> Frame list option" where
  "frame_loop n dur audio offset ts acc =
     (if offset + n \<le> int (length audio)
      then frame_loop n dur audio (offset + n) (ts + dur)
             (acc @ [\<lparr>bytes = py_slice audio offset (offset + n), timestamp = ts, duration = dur\<rparr>])
      else Some acc)"

definition frame_generator :: "VADAudio \<Rightarrow> byte_string \<Rightarrow> (exn + Frame list) option" where
  "frame_generator v audio =
     (let n = frame_size v
      in if sample_rate v = 0 then Some (Inl ZeroDivisionError)
         else map_option Inr
                (frame_loop n (of_int n / of_int (2 * sample_rate v)) audio 0 0 []))"

text \<open>
  \<open>vad_collector\<close> is a generator: its result is the list of the segments it yields, the
  exception that ended it (if one was raised) and the object, whose ring buffer it
  mutates and does not reset when it starts. \<open>join\<close> is \<open>b''.join(f.bytes for f in ...)\<close>.
  The ratio is a float; \<open>num_voiced\<close> is \<open>int(self.num_padding_frames * ratio)\<close>, the product
  rounded to a double and then truncated toward zero.
\<close>

definition join :: "Frame list \<Rightarrow> byte_string" where
  "join fs = concat (map bytes fs)"

fun vad_collector_loop ::
  "int \<Rightarrow> VADAudio \<Rightarrow> bool \<Rightarrow> Frame list \<Rightarrow> byte_string list \<Rightarrow> Frame list
     \<Rightarrow> byte_string list \<times> exn option \<times> VADAudio" where
  "vad_collector_loop num_voiced self triggered voiced_frames out [] =
     (if voiced_frames \<noteq> [] then (out @ [join voiced_frames], None, self)
      else (out, None, self))"
| "vad_collector_loop num_voiced self triggered voiced_frames out (frame # frames) =
     (case is_speech self (bytes frame) of
        Inl e \<Rightarrow> (out, Some e, self)
      | Inr speech \<Rightarrow>
          if \<not> triggered then
            let rb = deque_append (ring_buffer self) (frame, speech);
                num_voiced_frames = length (filter snd (items rb))
            in case float_of_int (int (maxlen rb)) of
                 Inl e \<Rightarrow> (out, Some e, self\<lparr>ring_buffer := rb\<rparr>)
               | Inr capacity \<Rightarrow>
                   if int_gt_float (int num_voiced_frames) (float_mul float_0_8 capacity)
                   then vad_collector_loop num_voiced (self\<lparr>ring_buffer := deque_clear rb\<rparr>)
                          True (voiced_frames @ map fst (items rb)) out frames
                   else vad_collector_loop num_voiced (self\<lparr>ring_buffer := rb\<rparr>)
                          False voiced_frames out frames
          else
            let voiced_frames1 = voiced_frames @ [frame];
                rb = deque_append (ring_buffer self) (frame, speech);
                num_unvoiced = length (filter (\<lambda>p. \<not> snd p) (items rb))
            in if int num_unvoiced > num_voiced
               then vad_collector_loop num_voiced (self\<lparr>ring_buffer := deque_clear rb\<rparr>)
                      False [] (out @ [join voiced_frames1]) frames
               else vad_collector_loop num_voiced (self\<lparr>ring_buffer := rb\<rparr>)
                      True voiced_frames1 out frames)"

definition vad_collector ::
  "VADAudio \<Rightarrow> Frame list \<Rightarrow> py_float \<Rightarrow> byte_string list \<times> exn option \<times> VADAudio" where
  "vad_collector self frames ratio =
     (case float_of_int (num_padding_frames self) of
        Inl e \<Rightarrow> ([], Some e, self)
      | Inr padding \<Rightarrow>
          (case int_of_float (float_mul padding ratio) of
             Inl e \<Rightarrow> ([], Some e, self)
           | Inr num_voiced \<Rightarrow> vad_collector_loop num_voiced self False [] [] frames))"

subsection \<open>The segment collector as the specification words it\<close>

text \<open>
  A two-state machine over a ring buffer of capacity \<open>cap\<close>. Idle: push the classified
  frame; when the speech-flagged entries exceed 0.8 of the capacity, go to Triggered with
  the buffered frames as the start of the segment and clear the ring buffer. Triggered:
  append the frame to the segment and push it; when the non-speech entries exceed
  \<open>trigger_ratio * ring_capacity\<close>, yield the bytes of the segment, clear the segment and
  the ring buffer and return to Idle. At the end of the frames a segment still open is
  yielded. The start threshold is the number four fifths of the capacity; the stop
  threshold \<open>product\<close> is the value of the expression \<open>trigger_ratio * ring_capacity\<close>, a
  float, and the count is compared with it as it is (no truncation).
\<close>

datatype collector_state = Idle | Triggered "Frame list"

definition ring_push :: "nat \<Rightarrow> 'a list \<Rightarrow> 'a \<Rightarrow> 'a list" where
  "ring_push cap ring x = (let r = ring @ [x] in drop (length r - cap) r)"

definition ratio_times_capacity :: "py_float \<Rightarrow> nat \<Rightarrow> py_float" where
  "ratio_times_capacity trigger_ratio cap = float_mul trigger_ratio (float_round (of_nat cap))"

fun collect_segments_step ::
  "nat \<Rightarrow> py_float \<Rightarrow> collector_state \<times> (Frame \<times> bool) list \<Rightarrow> Frame \<times> bool
     \<Rightarrow> (collector_state \<times> (Frame \<times> bool) list) \<times> byte_string list" where
  "collect_segments_step cap product (Idle, ring) (frame, speech) =
     (let ring1 = ring_push cap ring (frame, speech)
      in if of_nat (length (filter snd ring1)) > (4 / 5) * (of_nat cap :: rat)
         then ((Triggered (map fst ring1), []), [])
         else ((Idle, ring1), []))"
| "collect_segments_step cap product (Triggered segment, ring) (frame, speech) =
     (let segment1 = segment @ [frame];
          ring1 = ring_push cap ring (frame, speech)
      in if int_gt_float (int (length (filter (\<lambda>p. \<not> snd p) ring1))) product
         then ((Idle, []), [concat (map bytes segment1)])
         else ((Triggered segment1, ring1), []))"

fun collect_segments_run ::
  "(byte_string \<Rightarrow> exn + bool) \<Rightarrow> nat \<Rightarrow> py_float \<Rightarrow> collector_state \<times> (Frame \<times> bool) list
     \<Rightarrow> Frame list \<Rightarrow> byte_string list \<times> exn option \<times> (Frame \<times> bool) list" where
  "collect_segments_run classify cap product (Idle, ring) [] = ([], None, ring)"
| "collect_segments_run classify cap product (Triggered segment, ring) [] =
     (if segment \<noteq> [] then [concat (map bytes segment)] else [], None, ring)"
| "collect_segments_run classify cap product (st, ring) (frame # frames) =
     (case classify (bytes frame) of
        Inl e \<Rightarrow> ([], Some e, ring)
      | Inr speech \<Rightarrow>
          (case collect_segments_step cap product (st, ring) (frame, speech) of
             (next_state, ys) \<Rightarrow>
               (case collect_segments_run classify cap product next_state frames of
                  (zs, e, ring') \<Rightarrow> (ys @ zs, e, ring'))))"

definition collect_segments ::
  "VADAudio \<Rightarrow> Frame list \<Rightarrow> py_float \<Rightarrow> byte_string list \<times> exn option \<times> (Frame \<times> bool) list" where
  "collect_segments self frame_sequence trigger_ratio =
     collect_segments_run (is_speech self) (maxlen (ring_buffer self))
       (ratio_times_capacity trigger_ratio (maxlen (ring_buffer self)))
       (Idle, items (ring_buffer self)) frame_sequence"

section \<open>audio_listener: the capture loop\<close>

text \<open>
  What a method does besides changing the object: log lines, thread launches and joins,
  in the order in which they happen. (The log texts are the source's, without their
  emoji; a joined thread is named by its handle.)
\<close>

datatype effect = Warning string | Info string | Thread_start string | Thread_join nat

record AudioListener =
  sample_rate :: int
  frame_duration :: int
  bytes_per_sample :: int
  frame_size :: int
  vad :: VADAudio
  audio_queue :: "byte_string list"
  listening :: bool
  buffer :: byte_string
  thread :: "string option"
  speech_detected :: bool
  MAX_BUFFER_LEN :: int

definition AudioListener_init ::
  "(byte_string \<Rightarrow> int \<Rightarrow> exn + bool) \<Rightarrow> int \<Rightarrow> int \<Rightarrow> exn + AudioListener" where
  "AudioListener_init classifier rate fd =
     (let bps = 2;
          fs = py_int (of_int (rate * fd) / 1000) * bps
      in case VADAudio_init classifier rate fd of
           Inl e \<Rightarrow> Inl e
         | Inr v \<Rightarrow> Inr \<lparr>sample_rate = rate, frame_duration = fd, bytes_per_sample = bps,
                         frame_size = fs, vad = v, audio_queue = [], listening = False,
                         buffer = [], thread = None, speech_detected = False,
                         MAX_BUFFER_LEN = fs * 100\<rparr>)"

text \<open>
  \<open>_callback(indata, frames, time_info, status)\<close>: \<open>audio_bytes\<close> is \<open>indata.tobytes()\<close> and
  \<open>status\<close> is the truth value of the device status. A method returns the outcome of the
  call (an exception or the returned value), the object after the call and the effects.
  An exception of the classifier leaves the queue and the buffer as already updated.
\<close>

definition callback ::
  "AudioListener \<Rightarrow> byte_string \<Rightarrow> bool \<Rightarrow> (exn + unit) \<times> AudioListener \<times> effect list" where
  "callback self audio_bytes status =
     (let log = (if status then [Warning ''[SoundDevice] Status''] else []);
          s1 = self\<lparr>audio_queue := audio_queue self @ [audio_bytes]\<rparr>;
          s2 = s1\<lparr>buffer := buffer s1 @ audio_bytes\<rparr>;
          s3 = (if int (length (buffer s2)) > MAX_BUFFER_LEN s2
                then s2\<lparr>buffer := py_slice_from (buffer s2) (- MAX_BUFFER_LEN s2)\<rparr>
                else s2)
      in if int (length audio_bytes) \<ge> AudioListener.frame_size s3
         then let chunk = py_slice_from audio_bytes (- AudioListener.frame_size s3)
              in case is_speech (AudioListener.vad s3) chunk of
                   Inl e \<Rightarrow> (Inl e, s3, log)
                 | Inr True \<Rightarrow> (Inr (), s3\<lparr>speech_detected := True\<rparr>, log)
                 | Inr False \<Rightarrow> (Inr (), s3\<lparr>speech_detected := False\<rparr>, log)
         else (Inr (), s3, log))"

definition start_listening :: "AudioListener \<Rightarrow> (exn + unit) \<times> AudioListener \<times> effect list" where
  "start_listening self =
     (if listening self then (Inr (), self, [Warning ''Already listening.''])
      else (Inr (),
            self\<lparr>buffer := [], listening := True, speech_detected := False,
                  thread := Some ''_listen_loop''\<rparr>,
            [Info ''Audio listener started.'', Thread_start ''_listen_loop'']))"

definition reset_buffer :: "AudioListener \<Rightarrow> AudioListener" where
  "reset_buffer self = self\<lparr>buffer := []\<rparr>"

definition barge_in_detected :: "AudioListener \<Rightarrow> bool" where
  "barge_in_detected self = speech_detected self"

text \<open>The device delivers blocks one after the other; each is handled by one callback.\<close>

fun callbacks :: "AudioListener \<Rightarrow> (byte_string \<times> bool) list \<Rightarrow> AudioListener" where
  "callbacks self [] = self"
| "callbacks self ((blk, status) # rest) = callbacks (fst (snd (callback self blk status))) rest"

section \<open>Auxiliary notions for the statements\<close>

text \<open>The last \<open>m\<close> elements of a list (all of it when it is shorter).\<close>

definition last_elems :: "nat \<Rightarrow> 'a list \<Rightarrow> 'a list" where
  "last_elems m xs = drop (length xs - m) xs"

text \<open>
  The objects that \<open>VADAudio()\<close> and \<open>AudioListener()\<close> build with their default arguments
  (16 kHz, 30 ms frames), for a given classifier.
\<close>

definition default_vad :: "(byte_string \<Rightarrow> int \<Rightarrow> exn + bool) \<Rightarrow> VADAudio" where
  "default_vad classifier =
     \<lparr>VADAudio.vad = classifier, VADAudio.sample_rate = 16000, VADAudio.frame_duration = 30,
      VADAudio.frame_size = 960, padding_ms = 300, num_padding_frames = 10,
      ring_buffer = \<lparr>maxlen = 10, items = []\<rparr>\<rparr>"

definition default_listener :: "(byte_string \<Rightarrow> int \<Rightarrow> exn + bool) \<Rightarrow> AudioListener" where
  "default_listener classifier =
     \<lparr>AudioListener.sample_rate = 16000, AudioListener.frame_duration = 30,
      bytes_per_sample = 2, AudioListener.frame_size = 960,
      AudioListener.vad = default_vad classifier, audio_queue = [], listening = False,
      buffer = [], thread = None, speech_detected = False, MAX_BUFFER_LEN = 96000\<rparr>"

text \<open>Two classifiers for the examples: one hears speech in everything, one in every chunk
  that holds a byte other than zero.\<close>

definition always_speech :: "byte_string \<Rightarrow> int \<Rightarrow> exn + bool" where
  "always_speech audio_chunk rate = Inr True"

definition nonzero_is_speech :: "byte_string \<Rightarrow> int \<Rightarrow> exn + bool" where
  "nonzero_is_speech audio_chunk rate = Inr (list_ex (\<lambda>b. b \<noteq> 0) audio_chunk)"

text \<open>
  The speaking flag as the specification words it: the classification of the most recent
  one-frame-length suffix of the block, or, when the block is shorter than one frame, of
  the prior residual bytes followed by the block.
\<close>

definition speaking_flag_spec :: "AudioListener \<Rightarrow> byte_string \<Rightarrow> byte_string \<Rightarrow> exn + bool" where
  "speaking_flag_spec self residual blk =
     (let fs = nat (AudioListener.frame_size self);
          src = (if length blk < fs then residual @ blk else blk)
      in is_speech (AudioListener.vad self) (last_elems fs src))"

text \<open>
  A \<open>VADAudio\<close> object as its constructor builds it, whatever its ring buffer holds by now:
  the deque has the capacity \<open>num_padding_frames\<close> and holds no more than that.
\<close>

definition VADAudio_wf :: "VADAudio \<Rightarrow> bool" where
  "VADAudio_wf v = (num_padding_frames v = int (maxlen (ring_buffer v))
                    \<and> length (items (ring_buffer v)) \<le> maxlen (ring_buffer v))"

text \<open>A frame that holds the single byte \<open>b\<close>.\<close>

definition byte_frame :: "8 word \<Rightarrow> Frame" where
  "byte_frame b = \<lparr>bytes = [b], timestamp = 0, duration = 0\<rparr>"

section \<open>Text\<close>

text \<open>
  \<open>str.isspace\<close>, \<open>str.strip\<close> and \<open>str.lower\<close> on code points below 256, and the
  substring test \<open>sub in s\<close>.
\<close>

definition py_isspace :: "char \<Rightarrow> bool" where
  "py_isspace c =
     (let n = (of_char c :: nat)
      in (9 \<le> n \<and> n \<le> 13) \<or> (28 \<le> n \<and> n \<le> 32) \<or> n = 133 \<or> n = 160)"

definition py_strip :: "string \<Rightarrow> string" where
  "py_strip s = rev (dropWhile py_isspace (rev (dropWhile py_isspace s)))"

definition py_lower_char :: "char \<Rightarrow> char" where
  "py_lower_char c =
     (let n = (of_char c :: nat)
      in if (65 \<le> n \<and> n \<le> 90) \<or> (192 \<le> n \<and> n \<le> 222 \<and> n \<noteq> 215)
         then char_of (n + 32) else c)"

definition py_lower :: "string \<Rightarrow> string" where
  "py_lower s = map py_lower_char s"

fun py_in :: "string \<Rightarrow> string \<Rightarrow> bool" where
  "py_in sub [] = (sub = [])"
| "py_in sub (c # cs) = (prefix sub (c # cs) \<or> py_in sub cs)"

section \<open>stt1 and llm: transcription and the language model\<close>

text \<open>
  The services are external. \<open>service file_path\<close> is the outcome of opening the file and
  asking the transcription service for \<open>response.text\<close>: an exception or the text. All
  exceptions are caught (and logged) and lead to the same fallback.
\<close>

definition transcribe_audio :: "(string \<Rightarrow> exn + string) \<Rightarrow> string \<Rightarrow> string" where
  "transcribe_audio service file_path =
     (case service file_path of
        Inl e \<Rightarrow> ''Sorry, I couldn't understand the audio.''
      | Inr response_text \<Rightarrow>
          (let text = py_strip response_text
           in if text = [] then ''Sorry, I couldn't hear you clearly.'' else text))"

text \<open>
  \<open>service content\<close> is the outcome of the chat completion for the user message \<open>content\<close>
  (under the fixed system prompt): an exception or the content of the first choice.
\<close>

definition query_llm :: "(string \<Rightarrow> exn + string) \<Rightarrow> string \<Rightarrow> string" where
  "query_llm service prompt =
     (case service (py_strip prompt) of
        Inl e \<Rightarrow> ''I'm sorry, I couldn't generate a response at the moment. Please try again later.''
      | Inr content \<Rightarrow> py_strip content)"

section \<open>tts1: speech synthesis\<close>

text \<open>
  \<open>re.sub(d + "(.*?)" + d, r"\1", text)\<close> for a literal delimiter \<open>d\<close>: scanning from the
  left, a delimiter followed on the same line by a closing delimiter is replaced by what
  stands between them, the closing delimiter being the nearest one. \<open>find_close d s\<close>
  looks for that closing delimiter and returns the text before it and the text after it.
\<close>

fun find_close :: "string \<Rightarrow> string \<Rightarrow> (string \<times> string) option" where
  "find_close d [] = (if d = [] then Some ([], []) else None)"
| "find_close d (c # cs) =
     (if prefix d (c # cs) then Some ([], drop (length d) (c # cs))
      else if c = CHR 0x0A then None
      else (case find_close d cs of
              None \<Rightarrow> None
            | Some (inner, rest) \<Rightarrow> Some (c # inner, rest)))"

function sub_delimited :: "string \<Rightarrow> string \<Rightarrow> string" where
  "sub_delimited d [] = []"
| "sub_delimited d (c # cs) =
     (if d \<noteq> [] \<and> prefix d (c # cs)
      then (case find_close d (drop (length d) (c # cs)) of
              Some (inner, rest) \<Rightarrow> inner @ sub_delimited d rest
            | None \<Rightarrow> c # sub_delimited d cs)
      else c # sub_delimited d cs)"
  by pat_completeness auto
termination
proof (relation "measure (\<lambda>(d, s). length s)")
  have fc: "length rest \<le> length s" if "find_close d s = Some (inner, rest)"
    for d s inner rest
    using that
    by (induction s arbitrary: inner) (auto split: if_splits option.splits)
  fix d :: string and c cs x2 x y
  assume "d \<noteq> [] \<and> prefix d (c # cs)"
    and "find_close d (drop (length d) (c # cs)) = Some x2" and "(x, y) = x2"
  then have "length y \<le> length (drop (length d) (c # cs))" and "0 < length d"
    using fc[of d "drop (length d) (c # cs)" x y] by auto
  then show "((d, y), (d, c # cs)) \<in> measure (\<lambda>(d, s). length s)"
    by (cases d) auto
qed simp_all

text \<open>\<open>re.sub(r"#+\s*", "", text)\<close>: every run of \<open>#\<close> goes, with the white space after it.\<close>

function sub_headers :: "string \<Rightarrow> string" where
  "sub_headers [] = []"
| "sub_headers (c # cs) =
     (if c = CHR ''#''
      then sub_headers (dropWhile py_isspace (dropWhile (\<lambda>x. x = CHR ''#'') cs))
      else c # sub_headers cs)"
  by pat_completeness auto
termination
  by (relation "measure length")
     (auto intro: le_imp_less_Suc order_trans[OF length_dropWhile_le length_dropWhile_le])

definition clean_text_for_tts :: "string \<Rightarrow> string" where
  "clean_text_for_tts text =
     (let text1 = sub_delimited ''**'' text;
          text2 = sub_delimited ''*'' text1;
          text3 = sub_delimited ''`'' text2;
          text4 = sub_headers text3
      in py_strip text4)"

text \<open>
  Values of mixed type (keyword arguments, the metadata dictionary, the result
  \<open>Union[str, dict, None]\<close>).
\<close>

datatype py_value = PyNone | PyStr string | PyInt int | PyFloat rat | PyBool bool
  | PyDict "(string \<times> py_value) list"

text \<open>
  What lies outside: whether \<open>WavesClient(...)\<close> raises, the hexadecimal digits
  \<open>uuid.uuid4().hex\<close> hands out, and \<open>client.synthesize\<close>, which for its keyword arguments
  raises or returns; the boolean tells whether the output file exists afterwards.
\<close>

record tts_world =
  waves_client :: "exn option"
  uuid4_hex :: string
  synthesize :: "(string \<times> py_value) list \<Rightarrow> exn + bool"

record speech_options =
  save_as :: "string option"
  model :: string
  voice_id :: string
  sample_rate :: int
  speed :: rat
  consistency :: rat
  similarity :: rat
  enhancement :: bool
  return_metadata :: bool
  playback :: bool

definition default_options :: speech_options where
  "default_options =
     \<lparr>save_as = None, model = ''lightning'', voice_id = ''emily'', sample_rate = 24000,
      speed = 1, consistency = 1 / 2, similarity = 0, enhancement = False,
      return_metadata = False, playback = False\<rparr>"

definition os_path_join :: "string \<Rightarrow> string \<Rightarrow> string" where
  "os_path_join a b =
     (if b \<noteq> [] \<and> hd b = CHR ''/'' then b
      else if a = [] \<or> last a = CHR ''/'' then a @ b
      else a @ ''/'' @ b)"

definition TTS_OUTPUT_DIR :: string where
  "TTS_OUTPUT_DIR = ''tts_output''"

text \<open>
  \<open>generate_speech\<close> returns its result and the list of the synthesis requests it made (the
  keyword arguments of each call of \<open>client.synthesize\<close>, which is what writes a file).
\<close>

definition generate_speech ::
  "tts_world \<Rightarrow> string \<Rightarrow> speech_options \<Rightarrow> py_value \<times> (string \<times> py_value) list list" where
  "generate_speech world text opts =
     (if py_strip text = [] then (PyNone, [])
      else
        let clean_text = clean_text_for_tts text
        in case waves_client world of
             Some e \<Rightarrow> (PyNone, [])
           | None \<Rightarrow>
               let filename = (case save_as opts of
                                 Some name \<Rightarrow> if name \<noteq> [] then name else uuid4_hex world @ ''.wav''
                               | None \<Rightarrow> uuid4_hex world @ ''.wav'');
                   output_path = os_path_join TTS_OUTPUT_DIR filename;
                   synth_kwargs0 =
                     [(''text'', PyStr clean_text), (''save_as'', PyStr output_path),
                      (''sample_rate'', PyInt (speech_options.sample_rate opts)),
                      (''speed'', PyFloat (speed opts)), (''voice_id'', PyStr (voice_id opts)),
                      (''model'', PyStr (model opts))];
                   synth_kwargs =
                     (if model opts = ''lightning-large''
                      then synth_kwargs0 @
                           [(''consistency'', PyFloat (consistency opts)),
                            (''similarity'', PyFloat (similarity opts)),
                            (''enhancement'', PyBool (enhancement opts))]
                      else synth_kwargs0)
               in case synthesize world synth_kwargs of
                    Inl e \<Rightarrow> (PyNone, [synth_kwargs])
                  | Inr isfile \<Rightarrow>
                      if \<not> isfile then (PyNone, [synth_kwargs])
                      else if return_metadata opts
                      then (PyDict [(''output_path'', PyStr output_path),
                                  (''model'', PyStr (model opts)),
                                  (''voice_id'', PyStr (voice_id opts)),
                                  (''sample_rate'', PyInt (speech_options.sample_rate opts)),
                                  (''speed'', PyFloat (speed opts)),
                                  (''enhancement'',
                                     (if model opts = ''lightning-large''
                                      then PyBool (enhancement opts) else PyNone))],
                            [synth_kwargs])
                      else (PyStr output_path, [synth_kwargs]))"

text \<open>\<open>speak_text = generate_speech\<close>, as the conversation manager calls it: text only.\<close>

definition speak_text :: "tts_world \<Rightarrow> string \<Rightarrow> py_value \<times> (string \<times> py_value) list list" where
  "speak_text world text = generate_speech world text default_options"

section \<open>conversation_manager: turns and playback\<close>

record entry =
  role :: string
  content :: string

text \<open>
  A session is the dictionary that \<open>get_session\<close> creates. Its lock only serialises turns
  and is left out: a turn is one step here. \<open>playback_thread\<close> is a handle, the index of
  the thread in the table of the playback threads started for the session.
\<close>

record session =
  history :: "entry list"
  listener :: AudioListener
  stop_tts_flag :: bool
  sliding_window :: "bool deque"
  silence_start :: "rat option"
  playback_thread :: "nat option"

record ConversationManager =
  sessions :: "string \<rightharpoonup> session"

definition fresh_session :: "AudioListener \<Rightarrow> session" where
  "fresh_session l =
     \<lparr>history = [], listener = l, stop_tts_flag = False,
      sliding_window = \<lparr>maxlen = 10, items = []\<rparr>, silence_start = None,
      playback_thread = None\<rparr>"

definition get_session ::
  "(byte_string \<Rightarrow> int \<Rightarrow> exn + bool) \<Rightarrow> ConversationManager \<Rightarrow> string
     \<Rightarrow> exn + session \<times> ConversationManager" where
  "get_session classifier self session_id =
     (case sessions self session_id of
        Some s \<Rightarrow> Inr (s, self)
      | None \<Rightarrow>
          (case AudioListener_init classifier 16000 30 of
             Inl e \<Rightarrow> Inl e
           | Inr l \<Rightarrow>
               let s = fresh_session l
               in Inr (s, self\<lparr>sessions := (sessions self)(session_id \<mapsto> s)\<rparr>)))"

definition reset_history :: "session \<Rightarrow> session" where
  "reset_history s = s\<lparr>history := []\<rparr>"

definition is_followup :: "string \<Rightarrow> string \<Rightarrow> bool" where
  "is_followup new_input last_input =
     (if last_input = [] then False
      else list_ex (\<lambda>kw. py_in kw (py_lower new_input))
             [''also'', ''and'', ''by the way'', ''what about'', ''continue''])"

text \<open>
  The playback threads started for a session, in the order of their start: the text each
  one plays and whether it is alive. The remaining definitions are the bodies of the
  methods after \<open>session = self.get_session(session_id)\<close>; they touch that session only.

  \<open>_play_response_async\<close>: if the thread of the previous playback is still alive, set the
  stop flag and join it, which returns once that thread has ended (its \<open>finally\<close> sets the
  stop flag); then create and start the new thread.
\<close>

type_synonym playback_threads = "(string \<times> bool) list"

definition is_alive :: "playback_threads \<Rightarrow> nat \<Rightarrow> bool" where
  "is_alive threads t = (t < length threads \<and> snd (threads ! t))"

definition play_response_async ::
  "playback_threads \<Rightarrow> session \<Rightarrow> string \<Rightarrow> playback_threads \<times> session \<times> effect list" where
  "play_response_async threads s text =
     (let (threads1, s1, log) =
            (case playback_thread s of
               Some t \<Rightarrow>
                 if is_alive threads t
                 then (threads[t := (fst (threads ! t), False)], s\<lparr>stop_tts_flag := True\<rparr>,
                       [Info ''Waiting for previous playback to finish...'', Thread_join t])
                 else (threads, s, [])
             | None \<Rightarrow> (threads, s, []))
      in (threads1 @ [(text, True)], s1\<lparr>playback_thread := Some (length threads1)\<rparr>,
          log @ [Thread_start ''playback'']))"

text \<open>
  The thread body \<open>playback\<close> runs beside the coordinator. Its first step clears the stop
  flag (and starts the barge-in monitor); its last step sets the stop flag, whether
  \<open>speak_text\<close> returned or raised, and the thread ends.
\<close>

definition playback_begins :: "session \<Rightarrow> session" where
  "playback_begins s = s\<lparr>stop_tts_flag := False\<rparr>"

definition playback_ends ::
  "playback_threads \<Rightarrow> session \<Rightarrow> nat \<Rightarrow> playback_threads \<times> session" where
  "playback_ends threads s t =
     (if t < length threads
      then (threads[t := (fst (threads ! t), False)], s\<lparr>stop_tts_flag := True\<rparr>)
      else (threads, s))"

text \<open>
  What a turn meets outside: the transcription of a file that holds given bytes, the
  reply of the language model, and the name of the temporary file (which is taken to be
  written and removed without error).
\<close>

record turn_world =
  wav_path :: string
  stt :: "byte_string \<Rightarrow> exn + string"
  llm :: "string \<Rightarrow> exn + string"

definition process_turn ::
  "turn_world \<Rightarrow> playback_threads \<Rightarrow> session \<Rightarrow> byte_string
     \<Rightarrow> playback_threads \<times> session \<times> effect list" where
  "process_turn world threads s audio_bytes =
     (let transcription = transcribe_audio (\<lambda>path. stt world audio_bytes) (wav_path world);
          h = history s;
          (transcription1, h1) =
            (if h \<noteq> [] \<and> role (last h) = ''user''
             then let prev = content (last h)
                  in if is_followup transcription prev
                     then (prev @ '' '' @ transcription, butlast h)
                     else (transcription, h)
             else (transcription, h));
          h2 = h1 @ [\<lparr>role = ''user'', content = transcription1\<rparr>];
          response = query_llm (llm world) transcription1;
          h3 = h2 @ [\<lparr>role = ''assistant'', content = response\<rparr>]
      in play_response_async threads (s\<lparr>history := h3\<rparr>) response)"

text \<open>
  One pass through the body of the \<open>while listener.listening\<close> loop of \<open>run_loop\<close>, at time
  \<open>now\<close>; \<open>buf\<close> and \<open>silence\<close> are the local variables \<open>buffer\<close> and \<open>silence_start\<close>. An
  empty queue is the time-out of \<open>audio_queue.get\<close>: the pass ends at \<open>continue\<close>.
\<close>

definition run_loop_iteration ::
  "turn_world \<Rightarrow> rat \<Rightarrow> playback_threads \<times> session \<times> byte_string \<times> rat option
     \<Rightarrow> (playback_threads \<times> session \<times> byte_string \<times> rat option) \<times> effect list" where
  "run_loop_iteration world now st =
     (case st of (threads, s, buf, silence) \<Rightarrow>
        (case audio_queue (listener s) of
           [] \<Rightarrow> ((threads, s, buf, silence), [])
         | audio_chunk # queue \<Rightarrow>
             let listener1 = (listener s)\<lparr>audio_queue := queue\<rparr>;
                 buf1 = buf @ audio_chunk;
                 speech = barge_in_detected listener1;
                 window1 = deque_append (sliding_window s) speech;
                 s1 = s\<lparr>listener := listener1, sliding_window := window1\<rparr>
             in if list_ex (\<lambda>b. b) (items window1)
                then ((threads, s1, buf1, None), [])
                else (case silence of
                        None \<Rightarrow> ((threads, s1, buf1, Some now), [])
                      | Some t0 \<Rightarrow>
                          if now - t0 \<ge> 4 / 5
                          then let s2 = s1\<lparr>listener := reset_buffer listener1,
                                          sliding_window := deque_clear window1\<rparr>;
                                   audio_data = buf1
                               in (case process_turn world threads s2 audio_data of
                                     (threads', s3, effects) \<Rightarrow>
                                       ((threads', s3, [], None),
                                        Info ''Silence detected, processing turn...'' # effects))
                          else ((threads, s1, buf1, Some t0), []))))"

text \<open>The entries of a history that the user spoke.\<close>

definition user_entries :: "entry list \<Rightarrow> entry list" where
  "user_entries h = filter (\<lambda>e. role e = ''user'') h"

text \<open>
  The new text continues the previous turn: the history has a last entry, that entry is
  the user's and not empty, and the lower-cased text contains a continuation keyword.
\<close>

definition is_continuation :: "entry list \<Rightarrow> string \<Rightarrow> bool" where
  "is_continuation h t =
     (h \<noteq> [] \<and> role (last h) = ''user'' \<and> content (last h) \<noteq> []
      \<and> list_ex (\<lambda>kw. sublist kw (py_lower t))
            [''also'', ''and'', ''by the way'', ''what about'', ''continue''])"

text \<open>Collaborators for the examples.\<close>

definition example_tts_world :: tts_world where
  "example_tts_world =
     \<lparr>waves_client = None, uuid4_hex = ''0f'', synthesize = (\<lambda>kwargs. Inr True)\<rparr>"

definition example_turn_world :: turn_world where
  "example_turn_world =
     \<lparr>wav_path = ''/tmp/tmp0.wav'', stt = (\<lambda>audio. Inr ''and also explain that''),
      llm = (\<lambda>prompt. Inr ''Sure.'')\<rparr>"

text \<open>
  What happens to the playback threads of a session, in any order: the coordinator starts
  a playback (directly or at the end of a turn), a playback thread takes its first step,
  a playback thread ends.
\<close>

datatype playback_event =
  Play string | Turn turn_world byte_string | Playback_begins | Playback_ends nat

fun playback_step ::
  "playback_threads \<times> session \<Rightarrow> playback_event \<Rightarrow> playback_threads \<times> session" where
  "playback_step (threads, s) (Play text) =
     (case play_response_async threads s text of (threads', s', effects) \<Rightarrow> (threads', s'))"
| "playback_step (threads, s) (Turn world audio_bytes) =
     (case process_turn world threads s audio_bytes of (threads', s', effects) \<Rightarrow> (threads', s'))"
| "playback_step (threads, s) Playback_begins = (threads, playback_begins s)"
| "playback_step (threads, s) (Playback_ends t) = playback_ends threads s t"

definition playback_run ::
  "playback_threads \<times> session \<Rightarrow> playback_event list \<Rightarrow> playback_threads \<times> session" where
  "playback_run st events = foldl playback_step st events"

text \<open>
  The session's handle knows every playback thread that is alive (as it does when no
  playback thread has been started yet).
\<close>

definition one_playback :: "playback_threads \<Rightarrow> session \<Rightarrow> bool" where
  "one_playback threads s =
     (\<forall>t < length threads. snd (threads ! t) \<longrightarrow> playback_thread s = Some t)"

section \<open>The default configuration\<close>

lemma VADAudio_init_default: "VADAudio_init classifier 16000 30 = Inr (default_vad classifier)"
  by (simp add: VADAudio_init_def py_int_def deque_new_def Let_def default_vad_def)

lemma AudioListener_init_default:
  "AudioListener_init classifier 16000 30 = Inr (default_listener classifier)"
  by (simp add: AudioListener_init_def VADAudio_init_default default_listener_def Let_def
        py_int_def)

text \<open>
  Every configuration with at least one sample per frame (\<open>sample_rate * frame_duration\<close>
  at least 1000) that the constructors accept has a positive frame size, a sample rate
  other than zero, and a positive buffer limit.
\<close>

lemma py_int_frame_size:
  assumes "1000 \<le> rate * fd"
  shows "0 < py_int (of_int (rate * fd) / 1000) * 2"
proof -
  have "\<lfloor>(of_int (rate * fd) :: rat) / of_int 1000\<rfloor> = (rate * fd) div 1000"
    by (rule floor_divide_of_int_eq)
  moreover have "1 \<le> (rate * fd) div 1000" using assms by linarith
  moreover have "(0::rat) \<le> of_int (rate * fd) / 1000"
  proof -
    have "0 \<le> rate * fd" using assms by linarith
    then have "(0::rat) \<le> of_int (rate * fd)" by (subst of_int_0_le_iff)
    then show ?thesis by (rule divide_nonneg_nonneg) simp
  qed
  ultimately show ?thesis by (simp add: py_int_def)
qed

lemma VADAudio_init_valid:
  assumes "VADAudio_init classifier rate fd = Inr v" "1000 \<le> rate * fd"
  shows "0 < VADAudio.frame_size v \<and> VADAudio.sample_rate v \<noteq> 0 \<and> VADAudio_wf v"
proof -
  have fs: "0 < py_int (of_int (rate * fd) / 1000) * 2" using assms(2) by (rule py_int_frame_size)
  have "rate \<noteq> 0" using assms(2) by auto
  then show ?thesis
    using assms(1) fs
    by (auto simp: VADAudio_init_def deque_new_def VADAudio_wf_def Let_def
             split: if_splits sum.splits)
qed

text \<open>Every object the constructor builds is well formed, with a ring of at most 300 entries.\<close>

lemma VADAudio_init_capacity:
  assumes "VADAudio_init classifier rate fd = Inr v"
  shows "VADAudio_wf v \<and> maxlen (ring_buffer v) \<le> 300"
proof -
  have fd: "fd \<noteq> 0" using assms by (auto simp: VADAudio_init_def Let_def split: if_splits)
  let ?npf = "py_int (300 / of_int fd)"
  have le: "?npf \<le> 300"
  proof (cases "0 < fd")
    case True
    then have "(1::rat) \<le> of_int fd" by simp
    then have "(300::rat) / of_int fd \<le> 300 / 1" by (intro divide_left_mono) simp_all
    then have "\<lfloor>(300::rat) / of_int fd\<rfloor> \<le> 300" by (simp add: floor_le_iff)
    moreover have "(0::rat) \<le> 300 / of_int fd" using True by simp
    ultimately show ?thesis by (simp add: py_int_def)
  next
    case False
    then have "fd < 0" using fd by simp
    then have neg: "(300::rat) / of_int fd < 0" by (simp add: divide_pos_neg)
    then have c: "\<lceil>(300::rat) / of_int fd\<rceil> \<le> 0" by (simp add: ceiling_le_iff)
    have "?npf = \<lceil>(300::rat) / of_int fd\<rceil>" using neg by (simp add: py_int_def)
    then show ?thesis using c by linarith
  qed
  show ?thesis
    using assms fd le
    by (auto simp: VADAudio_init_def deque_new_def VADAudio_wf_def Let_def split: if_splits)
qed

lemma AudioListener_init_valid:
  assumes "AudioListener_init classifier rate fd = Inr l" "1000 \<le> rate * fd"
  shows "0 < AudioListener.frame_size l \<and> 0 < MAX_BUFFER_LEN l \<and> buffer l = []"
proof -
  have fs: "0 < py_int (of_int (rate * fd) / 1000) * 2" using assms(2) by (rule py_int_frame_size)
  show ?thesis
    using assms(1) fs
    by (auto simp: AudioListener_init_def Let_def split: sum.splits)
qed

section \<open>Slices\<close>

lemma py_slice_window:
  assumes "0 \<le> i" "0 \<le> k" "i + k \<le> int (length xs)"
  shows "py_slice xs i (i + k) = take (nat k) (drop (nat i) xs)"
  using assms by (auto simp: py_slice_def py_bound_def Let_def min_def nat_add_distrib)

lemma py_slice_from_neg:
  assumes "0 < k"
  shows "py_slice_from xs (- k) = drop (length xs - nat k) xs"
  using assms by (simp add: py_slice_from_def py_bound_def nat_diff_distrib' diff_commute)

text \<open>With a zero count the slice \<open>xs[-0:]\<close> is the whole sequence, not the empty one.\<close>

lemma py_slice_from_neg_zero: "py_slice_from xs (- 0) = xs"
  by (simp add: py_slice_from_def py_bound_def)

section \<open>frame_generator\<close>

lemma frame_loop_result:
  assumes "0 < n" "0 \<le> offset"
  shows "\<exists>fs. frame_loop n d audio offset ts acc = Some (acc @ fs)
            \<and> (\<forall>f\<in>set fs. length (bytes f) = nat n)
            \<and> length fs = (length audio - nat offset) div nat n
            \<and> concat (map bytes fs)
                = take (((length audio - nat offset) div nat n) * nat n) (drop (nat offset) audio)"
  using assms
proof (induction "length audio - nat offset" arbitrary: offset ts acc rule: less_induct)
  case less
  show ?case
  proof (cases "offset + n \<le> int (length audio)")
    case False
    then have small: "length audio - nat offset < nat n" using less.prems by linarith
    have "frame_loop n d audio offset ts acc = Some acc"
      using False by (subst frame_loop.simps) simp
    then show ?thesis using small by (intro exI[of _ "[]"]) simp
  next
    case True
    let ?f = "\<lparr>bytes = py_slice audio offset (offset + n), timestamp = ts, duration = d\<rparr>"
    have step: "frame_loop n d audio offset ts acc
                 = frame_loop n d audio (offset + n) (ts + d) (acc @ [?f])"
      using True by (subst frame_loop.simps) simp
    have dec: "length audio - nat (offset + n) < length audio - nat offset"
      using True less.prems by linarith
    from less.hyps[OF dec] less.prems obtain fs where
      fs: "frame_loop n d audio (offset + n) (ts + d) (acc @ [?f]) = Some ((acc @ [?f]) @ fs)"
          "\<forall>f\<in>set fs. length (bytes f) = nat n"
          "length fs = (length audio - nat (offset + n)) div nat n"
          "concat (map bytes fs)
             = take (((length audio - nat (offset + n)) div nat n) * nat n) (drop (nat (offset + n)) audio)"
      by (metis add_nonneg_nonneg less_imp_le)
    have bf: "bytes ?f = take (nat n) (drop (nat offset) audio)"
      using py_slice_window[of offset n audio] True less.prems by simp
    have lenf: "length (bytes ?f) = nat n"
      unfolding bf using True less.prems by simp
    have split: "length audio - nat offset = (length audio - nat (offset + n)) + nat n"
      using True less.prems by linarith
    have dv: "(length audio - nat offset) div nat n = Suc ((length audio - nat (offset + n)) div nat n)"
      using less.prems(1) by (simp add: split)
    have dr: "drop (nat (offset + n)) audio = drop (nat n) (drop (nat offset) audio)"
      using less.prems by (simp add: nat_add_distrib add.commute)
    have "concat (map bytes (?f # fs))
            = take (nat n) (drop (nat offset) audio)
              @ take (((length audio - nat (offset + n)) div nat n) * nat n)
                  (drop (nat n) (drop (nat offset) audio))"
      using fs(4) bf dr by simp
    also have "\<dots> = take (nat n + ((length audio - nat (offset + n)) div nat n) * nat n)
                        (drop (nat offset) audio)"
      by (simp only: take_add)
    finally have "concat (map bytes (?f # fs))
            = take (((length audio - nat offset) div nat n) * nat n) (drop (nat offset) audio)"
      by (simp only: dv mult_Suc)
    moreover have "\<forall>f\<in>set (?f # fs). length (bytes f) = nat n"
      using fs(2) lenf by simp
    moreover have "length (?f # fs) = (length audio - nat offset) div nat n"
      using fs(3) dv by simp
    moreover have "frame_loop n d audio offset ts acc = Some (acc @ (?f # fs))"
      using step fs(1) by simp
    ultimately show ?thesis by blast
  qed
qed

text \<open>A frame size of zero never advances the offset: the loop does not end.\<close>

lemma frame_loop_zero_diverges: "frame_loop 0 d audio 0 ts acc = None"
proof (rule ccontr)
  assume "frame_loop 0 d audio 0 ts acc \<noteq> None"
  then obtain y where y: "frame_loop 0 d audio 0 ts acc = Some y" by auto
  have "\<not> ((0::int) = 0 \<and> (0::int) = 0)"
  proof (rule frame_loop.raw_induct
          [where P = "\<lambda>n d au offset t a r. \<not> (n = 0 \<and> offset = 0)", OF _ y])
    fix f :: "int \<Rightarrow> rat \<Rightarrow> byte_string \<Rightarrow> int \<Rightarrow> rat \<Rightarrow> Frame list \<Rightarrow> Frame list option"
      and n dur audio offset ts acc r
    assume ih: "\<And>n dur audio offset ts acc r.
                  f n dur audio offset ts acc = Some r \<Longrightarrow> \<not> (n = 0 \<and> offset = 0)"
      and body: "(if offset + n \<le> int (length audio)
          then f n dur audio (offset + n) (ts + dur)
                (acc @ [\<lparr>bytes = py_slice audio offset (offset + n), timestamp = ts, duration = dur\<rparr>])
          else Some acc) = Some r"
    show "\<not> (n = 0 \<and> offset = 0)"
    proof
      assume z: "n = 0 \<and> offset = 0"
      then have "f 0 dur audio 0 (ts + dur)
                (acc @ [\<lparr>bytes = py_slice audio 0 0, timestamp = ts, duration = dur\<rparr>]) = Some r"
        using body by simp
      from ih[OF this] show False by simp
    qed
  qed
  then show False by simp
qed

lemma frame_generator_zero_frame_size:
  assumes "VADAudio.frame_size v = 0" "VADAudio.sample_rate v \<noteq> 0"
  shows "frame_generator v audio = None"
  using assms by (simp add: frame_generator_def frame_loop_zero_diverges)

text \<open>
  Claim C4. For a configured frame size that is positive (and a sample rate that is not
  zero, as in every configuration with a positive frame size that the constructor builds),
  \<open>frame_generator\<close> returns on every byte string: it yields finitely many frames, each of
  exactly the frame size, as many as fit into the input, and their bytes in order are the
  prefix of the input whose length is the largest multiple of the frame size not
  exceeding the length of the input.
\<close>

theorem frame_generator_frames:
  assumes "0 < VADAudio.frame_size v" "VADAudio.sample_rate v \<noteq> 0"
  shows "\<exists>fs. frame_generator v audio = Some (Inr fs)
            \<and> (\<forall>f\<in>set fs. length (bytes f) = nat (VADAudio.frame_size v))
            \<and> length fs = length audio div nat (VADAudio.frame_size v)
            \<and> concat (map bytes fs)
                = take ((length audio div nat (VADAudio.frame_size v)) * nat (VADAudio.frame_size v))
                    audio"
proof -
  let ?n = "VADAudio.frame_size v"
  let ?d = "of_int ?n / of_int (2 * VADAudio.sample_rate v) :: rat"
  from frame_loop_result[of ?n 0 ?d audio 0 "[]"]
  obtain fs where "frame_loop ?n ?d audio 0 0 [] = Some fs"
      "\<forall>f\<in>set fs. length (bytes f) = nat ?n"
      "length fs = length audio div nat ?n"
      "concat (map bytes fs) = take ((length audio div nat ?n) * nat ?n) audio"
    using assms(1) by auto
  then show ?thesis using assms(2) by (auto simp: frame_generator_def Let_def)
qed

theorem frame_generator_frames_witness:
  "0 < VADAudio.frame_size (default_vad always_speech)
   \<and> VADAudio.sample_rate (default_vad always_speech) \<noteq> 0
   \<and> (\<exists>fs. frame_generator (default_vad always_speech) (replicate 2000 7) = Some (Inr fs)
          \<and> (\<forall>f\<in>set fs. length (bytes f) = 960)
          \<and> length fs = 2
          \<and> concat (map bytes fs) = replicate 1920 7)"
  using frame_generator_frames [of "default_vad always_speech" "replicate 2000 7"]
  by (simp add: default_vad_def)

section \<open>The rolling capture buffer\<close>

lemma length_last_elems: "length (last_elems m xs) = min m (length xs)"
  unfolding last_elems_def by simp

lemma last_elems_append:
  "last_elems m (last_elems m xs @ ys) = last_elems m (xs @ ys)"
  by (cases "length xs \<le> m") (auto simp: last_elems_def add.commute)

lemma callback_buffer:
  assumes "0 < MAX_BUFFER_LEN self"
  shows "buffer (fst (snd (callback self blk status)))
           = last_elems (nat (MAX_BUFFER_LEN self)) (buffer self @ blk)"
  using assms
  by (auto simp: callback_def Let_def last_elems_def py_slice_from_neg
           split: sum.splits bool.splits)

text \<open>With a limit of zero nothing is ever dropped: \<open>buffer[-0:]\<close> is the whole buffer.\<close>

lemma callback_buffer_zero_max:
  assumes "MAX_BUFFER_LEN self = 0"
  shows "buffer (fst (snd (callback self blk status))) = buffer self @ blk"
  using assms
  by (auto simp: callback_def Let_def py_slice_from_def py_bound_def split: sum.splits bool.splits)

lemma callback_MAX:
  "MAX_BUFFER_LEN (fst (snd (callback self blk status))) = MAX_BUFFER_LEN self"
  by (auto simp: callback_def Let_def split: sum.splits bool.splits)

lemma callbacks_MAX: "MAX_BUFFER_LEN (callbacks self blocks) = MAX_BUFFER_LEN self"
  by (induction self blocks rule: callbacks.induct) (simp_all add: callback_MAX)

lemma callbacks_buffer:
  assumes "0 < MAX_BUFFER_LEN self" "int (length (buffer self)) \<le> MAX_BUFFER_LEN self"
  shows "buffer (callbacks self blocks)
           = last_elems (nat (MAX_BUFFER_LEN self)) (buffer self @ concat (map fst blocks))"
  using assms
proof (induction self blocks rule: callbacks.induct)
  case (1 self)
  then show ?case by (simp add: last_elems_def)
next
  case (2 self blk status rest)
  let ?s = "fst (snd (callback self blk status))"
  have b: "buffer ?s = last_elems (nat (MAX_BUFFER_LEN self)) (buffer self @ blk)"
    using "2.prems"(1) by (rule callback_buffer)
  have m: "MAX_BUFFER_LEN ?s = MAX_BUFFER_LEN self" by (rule callback_MAX)
  have len: "int (length (buffer ?s)) \<le> MAX_BUFFER_LEN ?s"
    unfolding b m using "2.prems"(1) by (simp add: last_elems_def)
  have "buffer (callbacks ?s rest)
          = last_elems (nat (MAX_BUFFER_LEN ?s)) (buffer ?s @ concat (map fst rest))"
    using "2.IH" "2.prems"(1) len m by simp
  then show ?case
    by (simp add: b m last_elems_append)
qed

text \<open>
  Claim C5. With a positive configured maximum, after any sequence of blocks handled by
  the capture callback (starting from a buffer within the maximum, as the empty buffer of
  a started loop is) the rolling buffer is no longer than \<open>MAX_BUFFER_LEN\<close>, it is a
  suffix of the bytes held at the start followed by all bytes appended since, and it
  keeps as many of the most recent bytes as the maximum allows.
\<close>

theorem rolling_buffer_bounded_suffix:
  assumes "0 < MAX_BUFFER_LEN self" "int (length (buffer self)) \<le> MAX_BUFFER_LEN self"
  shows "int (length (buffer (callbacks self blocks))) \<le> MAX_BUFFER_LEN self
       \<and> suffix (buffer (callbacks self blocks)) (buffer self @ concat (map fst blocks))
       \<and> length (buffer (callbacks self blocks))
           = min (nat (MAX_BUFFER_LEN self)) (length (buffer self @ concat (map fst blocks)))"
proof -
  have b: "buffer (callbacks self blocks)
           = last_elems (nat (MAX_BUFFER_LEN self)) (buffer self @ concat (map fst blocks))"
    using assms by (rule callbacks_buffer)
  have "suffix (buffer (callbacks self blocks)) (buffer self @ concat (map fst blocks))"
    unfolding b last_elems_def by (rule suffix_drop)
  moreover have "length (buffer (callbacks self blocks))
           = min (nat (MAX_BUFFER_LEN self)) (length (buffer self @ concat (map fst blocks)))"
    unfolding b by (rule length_last_elems)
  ultimately show ?thesis using assms(1) by linarith
qed

theorem rolling_buffer_bounded_suffix_witness:
  "0 < MAX_BUFFER_LEN (default_listener always_speech)
   \<and> int (length (buffer (default_listener always_speech)))
        \<le> MAX_BUFFER_LEN (default_listener always_speech)
   \<and> int (length (buffer (callbacks (default_listener always_speech)
              [(replicate 60000 1, False), (replicate 60000 2, False)]))) \<le> 96000
   \<and> suffix (buffer (callbacks (default_listener always_speech)
              [(replicate 60000 1, False), (replicate 60000 2, False)]))
        (replicate 60000 1 @ replicate 60000 2)
   \<and> length (buffer (callbacks (default_listener always_speech)
              [(replicate 60000 1, False), (replicate 60000 2, False)])) = 96000"
  using rolling_buffer_bounded_suffix [of "default_listener always_speech"
          "[(replicate 60000 1, False), (replicate 60000 2, False)]"]
  by (simp add: default_listener_def)

section \<open>The speaking flag\<close>

text \<open>
  Claim C9 as stated fails: a block shorter than one frame is not classified at all. With
  a classifier that hears speech in everything and 959 bytes already buffered, a one-byte
  block would have to set the flag; the callback leaves it cleared.
\<close>

theorem callback_short_block_counterexample:
  "speaking_flag_spec ((default_listener always_speech)\<lparr>buffer := replicate 959 0\<rparr>)
       (replicate 959 0) [4] = Inr True
   \<and> \<not> speech_detected (fst (snd (callback
           ((default_listener always_speech)\<lparr>buffer := replicate 959 0\<rparr>) [4] False)))"
  by (simp add: speaking_flag_spec_def callback_def default_listener_def default_vad_def
        is_speech_def always_speech_def Let_def)

text \<open>
  Claim C9, amended. With a positive frame size, a callback whose block holds at least one
  frame sets the speaking flag to the classification of the last frame-size bytes of that
  block (and leaves the flag as it was if the classifier raises); a callback whose block
  is shorter than one frame leaves the flag as it was.
\<close>

theorem callback_speaking_flag:
  assumes "0 < AudioListener.frame_size self"
  shows "speech_detected (fst (snd (callback self blk status)))
          = (if int (length blk) \<ge> AudioListener.frame_size self
             then (case is_speech (AudioListener.vad self)
                          (last_elems (nat (AudioListener.frame_size self)) blk) of
                     Inr b \<Rightarrow> b
                   | Inl e \<Rightarrow> speech_detected self)
             else speech_detected self)"
  using assms
  by (auto simp: callback_def Let_def py_slice_from_neg last_elems_def
           split: sum.splits bool.splits)

theorem callback_speaking_flag_witness:
  "0 < AudioListener.frame_size (default_listener always_speech)
   \<and> speech_detected (fst (snd (callback (default_listener always_speech)
                                    (replicate 1000 3) False)))"
  using callback_speaking_flag [of "default_listener always_speech" "replicate 1000 3" False]
  by (simp add: default_listener_def default_vad_def is_speech_def always_speech_def)

section \<open>Starting the capture loop\<close>

text \<open>
  Claim C7 as stated fails: starting a loop that is already listening does not fail with
  an error, the call returns normally.
\<close>

theorem start_listening_running_counterexample:
  "\<not> isl (fst (start_listening ((default_listener always_speech)\<lparr>listening := True\<rparr>)))"
  by (simp add: start_listening_def default_listener_def)

text \<open>
  Claim C7, amended. \<open>start_listening\<close> never raises. On a loop that is already listening
  it only logs a warning: the object is unchanged and no thread is launched. On a stopped
  loop it empties the rolling buffer, clears the speaking flag, sets the listening flag
  and launches exactly one capture thread.
\<close>

theorem start_listening_behaviour:
  "fst (start_listening self) = Inr ()
   \<and> (listening self \<longrightarrow>
          fst (snd (start_listening self)) = self
        \<and> snd (snd (start_listening self)) = [Warning ''Already listening.'']
        \<and> (\<forall>t. Thread_start t \<notin> set (snd (snd (start_listening self)))))
   \<and> (\<not> listening self \<longrightarrow>
          buffer (fst (snd (start_listening self))) = []
        \<and> \<not> speech_detected (fst (snd (start_listening self)))
        \<and> listening (fst (snd (start_listening self)))
        \<and> thread (fst (snd (start_listening self))) = Some ''_listen_loop''
        \<and> filter (\<lambda>e. \<exists>t. e = Thread_start t) (snd (snd (start_listening self)))
             = [Thread_start ''_listen_loop''])"
  by (auto simp: start_listening_def)

theorem start_listening_behaviour_witness:
  "\<not> listening (default_listener always_speech)
   \<and> listening (fst (snd (start_listening (default_listener always_speech))))
   \<and> buffer (fst (snd (start_listening (default_listener always_speech)))) = []
   \<and> listening ((default_listener always_speech)\<lparr>listening := True\<rparr>)
   \<and> fst (snd (start_listening ((default_listener always_speech)\<lparr>listening := True\<rparr>)))
        = (default_listener always_speech)\<lparr>listening := True\<rparr>
   \<and> snd (snd (start_listening ((default_listener always_speech)\<lparr>listening := True\<rparr>)))
        = [Warning ''Already listening.'']"
  using start_listening_behaviour [of "default_listener always_speech"]
        start_listening_behaviour [of "(default_listener always_speech)\<lparr>listening := True\<rparr>"]
  by (simp add: default_listener_def)


section \<open>Floats\<close>

text \<open>
  Rounding stays within half a quantum of the exact value, integers of small magnitude
  are doubles, and \<open>0.8 * c\<close> has the same integer part as four fifths of \<open>c\<close> for every
  capacity up to 300.
\<close>

lemma pow2_pos: "0 < pow2 k"
  by (simp add: pow2_def)

lemma pow2_neg: "k \<le> 0 \<Longrightarrow> pow2 k = 1 / 2 ^ nat (- k)"
  by (cases "k = 0") (simp_all add: pow2_def)

lemma round_half_even_bounds:
  "\<lfloor>m\<rfloor> \<le> round_half_even m" "of_int (round_half_even m) \<le> m + 1 / 2"
proof -
  let ?f = "\<lfloor>m\<rfloor>"
  let ?d = "m - of_int ?f"
  have f: "of_int ?f \<le> m" by linarith
  show "?f \<le> round_half_even m" by (simp add: round_half_even_def Let_def)
  consider "?d < 1 / 2" | "1 / 2 < ?d" | "?d = 1 / 2" by linarith
  then show "of_int (round_half_even m) \<le> m + 1 / 2"
  proof cases
    case 1
    then have e: "round_half_even m = ?f" by (simp add: round_half_even_def Let_def)
    have "of_int ?f \<le> m + 1 / 2" using f by linarith
    then show ?thesis unfolding e .
  next
    case 2
    then have e: "round_half_even m = ?f + 1" by (simp add: round_half_even_def Let_def)
    have "of_int (?f + 1) \<le> m + 1 / 2" using 2 by simp
    then show ?thesis unfolding e .
  next
    case 3
    have a: "of_int ?f \<le> m + 1 / 2" using f by linarith
    have b: "of_int (?f + 1) \<le> m + 1 / 2" using 3 by simp
    have "round_half_even m = ?f \<or> round_half_even m = ?f + 1"
      using 3 by (simp add: round_half_even_def Let_def)
    then show ?thesis using a b by (elim disjE) (simp_all only:)
  qed
qed

lemma round_half_even_of_int: "round_half_even (of_int z) = z"
  by (simp add: round_half_even_def Let_def)

lemma binade_upper:
  assumes "q \<noteq> 0" "\<bar>q\<bar> < 2 ^ k" "0 < k"
  shows "binade q < int k"
proof (cases "1 \<le> \<bar>q\<bar>")
  case True
  let ?n = "\<lfloor>\<bar>q\<bar>\<rfloor>"
  have n: "0 < ?n" using True by linarith
  have "2 ^ nat (bitlen ?n - 1) \<le> ?n" using bitlen_bounds[OF n] by simp
  then have "(of_int (2 ^ nat (bitlen ?n - 1)) :: rat) \<le> of_int ?n" by (simp only: of_int_le_iff)
  also have "\<dots> \<le> \<bar>q\<bar>" by linarith
  also have "\<dots> < 2 ^ k" by (rule assms(2))
  finally have "(2::rat) ^ nat (bitlen ?n - 1) < 2 ^ k" by simp
  then have "nat (bitlen ?n - 1) < k" by simp
  then show ?thesis using True by (simp add: binade_def Let_def)
next
  case False
  have "0 \<le> bitlen (\<lceil>1 / \<bar>q\<bar>\<rceil> - 1)" by (rule bitlen_nonneg)
  then show ?thesis using False assms(3) by (simp add: binade_def Let_def)
qed


lemma float_round_quantum:
  assumes "q \<noteq> 0" "\<bar>q\<bar> < 2 ^ k" "0 < k" "k \<le> 52"
  obtains N where "pow2 (max (binade q) (- 1022) - 52) = 1 / 2 ^ N" "52 < N + k"
proof -
  let ?e = "max (binade q) (- 1022)"
  have "binade q < int k" using assms(1-3) by (rule binade_upper)
  then have e: "?e < int k" using assms(3) by simp
  then have "?e - 52 \<le> 0" using assms(4) by simp
  then have "pow2 (?e - 52) = 1 / 2 ^ nat (- (?e - 52))" by (rule pow2_neg)
  moreover have "52 < nat (- (?e - 52)) + k" using e by linarith
  ultimately show thesis by (rule that)
qed

lemma float_round_no_overflow:
  assumes "\<bar>r\<bar> < 2 ^ k" "0 < k" "k \<le> 1024"
  shows "\<not> (r \<noteq> 0 \<and> 1024 \<le> binade r)"
proof
  assume a: "r \<noteq> 0 \<and> 1024 \<le> binade r"
  then have "binade r < int k" using assms(1,2) binade_upper by blast
  then show False using a assms(3) by simp
qed

lemma float_round_eq:
  assumes "q \<noteq> 0" "pow2 (max (binade q) (- 1022) - 52) = u"
      and "of_int (round_half_even (q / u)) * u = r" "\<not> (r \<noteq> 0 \<and> 1024 \<le> binade r)"
  shows "float_round q = Finite r"
  unfolding float_round_def Let_def assms(2) assms(3) using assms(1,4) by simp

lemma float_round_small_nat:
  assumes "c \<le> 300"
  shows "float_round (of_nat c) = Finite (of_nat c)"
proof (cases "c = 0")
  case True
  then show ?thesis by (simp add: float_round_def)
next
  case False
  let ?q = "of_nat c :: rat"
  have q0: "?q \<noteq> 0" using False by simp
  have "?q < 512" using assms by simp
  then have lt: "\<bar>?q\<bar> < 2 ^ 9" by simp
  obtain N where u: "pow2 (max (binade ?q) (- 1022) - 52) = 1 / 2 ^ N"
    using float_round_quantum[OF q0 lt] by auto
  have "?q / (1 / 2 ^ N) = of_int (int c * 2 ^ N)" by simp
  then have "round_half_even (?q / (1 / 2 ^ N)) = int c * 2 ^ N"
    by (simp only: round_half_even_of_int)
  then have r: "of_int (round_half_even (?q / (1 / 2 ^ N))) * (1 / 2 ^ N) = ?q" by simp
  have "\<not> (?q \<noteq> 0 \<and> 1024 \<le> binade ?q)"
    using float_round_no_overflow[OF lt] by simp
  with q0 u r show ?thesis by (rule float_round_eq)
qed

lemma four_fifths_floor:
  "(4 / 5) * (of_nat c :: rat) \<le> of_int \<lfloor>(4 / 5) * (of_nat c :: rat)\<rfloor> + 4 / 5"
proof -
  have eq: "(4 / 5) * (of_nat c :: rat) = of_int (4 * int c) / of_int 5" by simp
  have fl: "\<lfloor>(of_int (4 * int c) :: rat) / of_int 5\<rfloor> = (4 * int c) div 5"
    by (rule floor_divide_of_int_eq)
  have "4 * int c = 5 * ((4 * int c) div 5) + (4 * int c) mod 5" by simp
  moreover have "(4 * int c) mod 5 \<le> 4" by presburger
  ultimately have "4 * int c \<le> 5 * ((4 * int c) div 5) + 4" by linarith
  then have "(of_int (4 * int c) :: rat) \<le> of_int (5 * ((4 * int c) div 5) + 4)"
    by (simp only: of_int_le_iff)
  then have "(of_int (4 * int c) :: rat) / 5 \<le> of_int ((4 * int c) div 5) + 4 / 5" by simp
  then show ?thesis unfolding eq fl by simp
qed


lemma float_0_8_times_capacity:
  assumes "c \<le> 300"
  shows "\<exists>r. float_mul float_0_8 (Finite (of_nat c)) = Finite r
            \<and> \<lfloor>r\<rfloor> = \<lfloor>(4 / 5) * (of_nat c :: rat)\<rfloor>"
proof (cases "c = 0")
  case True
  then show ?thesis by (simp add: float_0_8_def float_round_def)
next
  case False
  let ?x = "3602879701896397 / 4503599627370496 * (of_nat c :: rat)"
  let ?k = "\<lfloor>(4 / 5) * (of_nat c :: rat)\<rfloor>"
  have c: "(0::rat) < of_nat c" "(of_nat c :: rat) \<le> 300" using False assms by simp_all
  have lo: "(4 / 5) * (of_nat c :: rat) < ?x" using c(1) by simp
  have hi: "?x \<le> (4 / 5) * (of_nat c :: rat) + 1 / 70368744177664" using c(2) by simp
  have x0: "?x \<noteq> 0" using c(1) by simp
  have k1: "of_int ?k \<le> (4 / 5) * (of_nat c :: rat)" by linarith
  have k2: "(4 / 5) * (of_nat c :: rat) \<le> of_int ?k + 4 / 5" by (rule four_fifths_floor)
  have k0: "0 \<le> ?k" using c(1) by simp
  have "\<bar>?x\<bar> < 256" using c hi by simp
  then have lt: "\<bar>?x\<bar> < 2 ^ 8" by simp
  obtain N where u: "pow2 (max (binade ?x) (- 1022) - 52) = 1 / 2 ^ N" and N: "52 < N + 8"
    using float_round_quantum[OF x0 lt] by auto
  define R where "R = round_half_even (?x / (1 / 2 ^ N))"
  define r where "r = of_int R * (1 / 2 ^ N :: rat)"
  have p: "(0::rat) < 2 ^ N" by simp
  have "(2::rat) ^ 45 \<le> 2 ^ N" using N by (intro power_increasing) simp_all
  then have big: "(35184372088832::rat) \<le> 2 ^ N" by simp
  have "of_int (?k * 2 ^ N) = of_int ?k * (2::rat) ^ N" by simp
  also have "\<dots> \<le> ?x * 2 ^ N" using k1 lo p by (intro mult_right_mono) simp_all
  finally have "of_int (?k * 2 ^ N) \<le> ?x / (1 / 2 ^ N)" by simp
  then have "?k * 2 ^ N \<le> \<lfloor>?x / (1 / 2 ^ N)\<rfloor>" by (simp only: le_floor_iff)
  also have "\<dots> \<le> R" unfolding R_def by (rule round_half_even_bounds)
  finally have "(of_int (?k * 2 ^ N) :: rat) \<le> of_int R" by (simp only: of_int_le_iff)
  then have "of_int ?k * (2::rat) ^ N \<le> of_int R" by simp
  then have lower: "of_int ?k \<le> r" using p by (simp add: r_def field_simps)
  have "of_int R \<le> ?x / (1 / 2 ^ N) + 1 / 2" unfolding R_def by (rule round_half_even_bounds)
  then have "of_int R \<le> ?x * 2 ^ N + 1 / 2" by simp
  then have "r \<le> ?x + 1 / 2 / 2 ^ N" using p by (simp add: r_def field_simps)
  moreover have "1 / 2 / (2::rat) ^ N \<le> 1 / 2 / 35184372088832"
    using big p by (intro divide_left_mono) simp_all
  ultimately have "r \<le> ?x + 1 / 70368744177664" by linarith
  then have upper: "r < of_int ?k + 1" using hi k2 by linarith
  have fl: "\<lfloor>r\<rfloor> = ?k" using lower upper by (intro floor_unique) simp_all
  have k240: "of_int ?k \<le> (240::rat)" using k1 c(2) by linarith
  have kr0: "(0::rat) \<le> of_int ?k" using k0 by (simp only: of_int_0_le_iff)
  have "\<bar>r\<bar> < 256" using lower upper kr0 k240 by linarith
  then have "\<bar>r\<bar> < 2 ^ 8" by simp
  then have no: "\<not> (r \<noteq> 0 \<and> 1024 \<le> binade r)" by (rule float_round_no_overflow) simp_all
  have "of_int (round_half_even (?x / (1 / 2 ^ N))) * (1 / 2 ^ N) = r"
    by (simp only: r_def R_def)
  with x0 u have "float_round ?x = Finite r" using no by (rule float_round_eq)
  then show ?thesis using fl by (simp add: float_0_8_def)
qed

lemma float_mul_commute: "float_mul x y = float_mul y x"
  by (cases x; cases y) (simp_all add: mult.commute)

lemma float_round_nonneg:
  assumes "0 \<le> q" "float_round q = Finite r"
  shows "0 \<le> r"
proof (cases "q = 0")
  case True
  then show ?thesis using assms(2) by (simp add: float_round_def)
next
  case False
  let ?u = "pow2 (max (binade q) (- 1022) - 52)"
  have u: "0 < ?u" by (rule pow2_pos)
  then have "0 \<le> q / ?u" using assms(1) by simp
  then have "0 \<le> \<lfloor>q / ?u\<rfloor>" by simp
  also have "\<dots> \<le> round_half_even (q / ?u)" by (rule round_half_even_bounds)
  finally have "(0::rat) \<le> of_int (round_half_even (q / ?u))" by (simp only: of_int_0_le_iff)
  then have "0 \<le> of_int (round_half_even (q / ?u)) * ?u" using u by simp
  moreover have "r = of_int (round_half_even (q / ?u)) * ?u"
    using assms(2) False by (simp add: float_round_def Let_def split: if_splits)
  ultimately show ?thesis by simp
qed

lemma start_threshold:
  assumes "cap \<le> 300"
  shows "float_of_int (int cap) = Inr (Finite (of_nat cap))"
    and "int_gt_float (int n) (float_mul float_0_8 (Finite (of_nat cap)))
           = ((4 / 5) * (of_nat cap :: rat) < of_nat n)"
proof -
  show "float_of_int (int cap) = Inr (Finite (of_nat cap))"
    using float_round_small_nat[OF assms] by (simp add: float_of_int_def)
  obtain r where r: "float_mul float_0_8 (Finite (of_nat cap)) = Finite r"
      "\<lfloor>r\<rfloor> = \<lfloor>(4 / 5) * (of_nat cap :: rat)\<rfloor>"
    using float_0_8_times_capacity[OF assms] by auto
  have "(r < of_int (int n)) = (\<lfloor>r\<rfloor> < int n)" by (simp only: floor_less_iff)
  also have "\<dots> = (\<lfloor>(4 / 5) * (of_nat cap :: rat)\<rfloor> < int n)" by (simp only: r(2))
  also have "\<dots> = ((4 / 5) * (of_nat cap :: rat) < of_int (int n))" by (simp only: floor_less_iff)
  finally show "int_gt_float (int n) (float_mul float_0_8 (Finite (of_nat cap)))
           = ((4 / 5) * (of_nat cap :: rat) < of_nat n)"
    by (simp add: r(1))
qed

lemma stop_threshold:
  assumes "0 \<le> p \<or> p \<le> - 1"
  shows "(py_int p < int n) = int_gt_float (int n) (Finite p)"
proof (cases "0 \<le> p")
  case True
  have "(\<lfloor>p\<rfloor> < int n) = (p < of_int (int n))" by (rule floor_less_iff)
  then show ?thesis using True by (simp add: py_int_def)
next
  case False
  then have p: "p \<le> - 1" using assms by simp
  then have "\<lceil>p\<rceil> \<le> - 1" by (simp add: ceiling_le_iff)
  then have "\<lceil>p\<rceil> < int n" by linarith
  moreover have "p < of_int (int n)" using p by (simp add: order.strict_trans1[of p "-1"])
  ultimately show ?thesis using False by (simp add: py_int_def)
qed

section \<open>vad_collector and the two-state machine\<close>

lemma deque_append_items:
  assumes "length (items d) \<le> maxlen d"
  shows "items (deque_append d x) = ring_push (maxlen d) (items d) x"
  using assms
  by (cases "items d") (auto simp: deque_append_def ring_push_def Let_def)

lemma deque_append_maxlen: "maxlen (deque_append d x) = maxlen d"
  by (simp add: deque_append_def)

lemma ring_push_length: "length (ring_push cap ring x) \<le> cap"
  by (simp add: ring_push_def Let_def)

lemma is_speech_ring_buffer: "is_speech (self\<lparr>ring_buffer := rb\<rparr>) = is_speech self"
  by (rule ext) (simp add: is_speech_def)

lemma vad_collector_loop_sim:
  assumes "maxlen (ring_buffer self) = cap" "length (items (ring_buffer self)) \<le> cap"
      and "cap \<le> 300" "0 \<le> p \<or> p \<le> - 1"
      and "st = (if triggered then Triggered vf else Idle)" "\<not> triggered \<Longrightarrow> vf = []"
  shows "vad_collector_loop (py_int p) self triggered vf out frames =
     (case collect_segments_run (is_speech self) cap (Finite p) (st, items (ring_buffer self)) frames of
        (ys, e, ring) \<Rightarrow> (out @ ys, e, self\<lparr>ring_buffer := \<lparr>maxlen = cap, items = ring\<rparr>\<rparr>))"
  using assms
proof (induction frames arbitrary: self triggered vf out st)
  case Nil
  have "\<lparr>maxlen = cap, items = items (ring_buffer self)\<rparr> = ring_buffer self"
    using Nil.prems(1) by auto
  then show ?case using Nil.prems by (auto simp: join_def)
next
  case (Cons frame frames)
  let ?nv = "py_int p"
  show ?case
  proof (cases "is_speech self (bytes frame)")
    case (Inl e)
    have "\<lparr>maxlen = cap, items = items (ring_buffer self)\<rparr> = ring_buffer self"
      using Cons.prems(1) by auto
    then show ?thesis using Inl by simp
  next
    case (Inr speech)
    let ?rb = "deque_append (ring_buffer self) (frame, speech)"
    let ?ring1 = "ring_push cap (items (ring_buffer self)) (frame, speech)"
    have items: "items ?rb = ?ring1"
      using deque_append_items[of "ring_buffer self" "(frame, speech)"] Cons.prems(1,2) by simp
    have ml: "maxlen ?rb = cap" using Cons.prems(1) by (simp add: deque_append_maxlen)
    have len1: "length ?ring1 \<le> cap" by (rule ring_push_length)
    have conv: "float_of_int (int cap) = Inr (Finite (of_nat cap))"
      using Cons.prems(3) by (rule start_threshold)
    have start: "\<And>n. int_gt_float (int n) (float_mul float_0_8 (Finite (of_nat cap)))
                       = ((4 / 5) * (of_nat cap :: rat) < of_nat n)"
      using Cons.prems(3) by (rule start_threshold)
    have stop: "\<And>n. (?nv < int n) = int_gt_float (int n) (Finite p)"
      using Cons.prems(4) by (rule stop_threshold)
    show ?thesis
    proof (cases triggered)
      case False
      then have st: "st = Idle" and vf: "vf = []" using Cons.prems by auto
      show ?thesis
      proof (cases "(of_nat (length (filter snd ?ring1)) :: rat) > (4 / 5) * of_nat cap")
        case True
        let ?self1 = "self\<lparr>ring_buffer := deque_clear ?rb\<rparr>"
        have ih: "vad_collector_loop ?nv ?self1 True (map fst ?ring1) out frames =
            (case collect_segments_run (is_speech ?self1) cap (Finite p)
                    (Triggered (map fst ?ring1), items (ring_buffer ?self1)) frames of
               (ys, e, ring) \<Rightarrow> (out @ ys, e, ?self1\<lparr>ring_buffer := \<lparr>maxlen = cap, items = ring\<rparr>\<rparr>))"
          by (rule Cons.IH) (use ml Cons.prems(3,4) in \<open>simp_all add: deque_clear_def\<close>)
        show ?thesis
          using Inr False True ih items ml st vf
          by (simp add: Let_def is_speech_ring_buffer deque_clear_def conv start split: prod.splits)
      next
        case nt: False
        let ?self1 = "self\<lparr>ring_buffer := ?rb\<rparr>"
        have ih: "vad_collector_loop ?nv ?self1 False [] out frames =
            (case collect_segments_run (is_speech ?self1) cap (Finite p)
                    (Idle, items (ring_buffer ?self1)) frames of
               (ys, e, ring) \<Rightarrow> (out @ ys, e, ?self1\<lparr>ring_buffer := \<lparr>maxlen = cap, items = ring\<rparr>\<rparr>))"
          by (rule Cons.IH) (use ml len1 items Cons.prems(3,4) in simp_all)
        show ?thesis
          using Inr False nt ih items ml st vf
          by (simp add: Let_def is_speech_ring_buffer conv start split: prod.splits)
      qed
    next
      case True
      then have st: "st = Triggered vf" using Cons.prems by auto
      show ?thesis
      proof (cases "int_gt_float (int (length (filter (\<lambda>p. \<not> snd p) ?ring1))) (Finite p)")
        case stp: True
        let ?self1 = "self\<lparr>ring_buffer := deque_clear ?rb\<rparr>"
        have ih: "vad_collector_loop ?nv ?self1 False [] (out @ [join (vf @ [frame])]) frames =
            (case collect_segments_run (is_speech ?self1) cap (Finite p)
                    (Idle, items (ring_buffer ?self1)) frames of
               (ys, e, ring) \<Rightarrow> ((out @ [join (vf @ [frame])]) @ ys, e,
                                  ?self1\<lparr>ring_buffer := \<lparr>maxlen = cap, items = ring\<rparr>\<rparr>))"
          by (rule Cons.IH) (use ml Cons.prems(3,4) in \<open>simp_all add: deque_clear_def\<close>)
        have c: "?nv < int (length (filter (\<lambda>p. \<not> snd p) ?ring1))"
          using stp stop by blast
        show ?thesis
          using Inr True stp c ih items ml st
          by (simp add: Let_def is_speech_ring_buffer deque_clear_def join_def split: prod.splits)
      next
        case go: False
        let ?self1 = "self\<lparr>ring_buffer := ?rb\<rparr>"
        have ih: "vad_collector_loop ?nv ?self1 True (vf @ [frame]) out frames =
            (case collect_segments_run (is_speech ?self1) cap (Finite p)
                    (Triggered (vf @ [frame]), items (ring_buffer ?self1)) frames of
               (ys, e, ring) \<Rightarrow> (out @ ys, e, ?self1\<lparr>ring_buffer := \<lparr>maxlen = cap, items = ring\<rparr>\<rparr>))"
          by (rule Cons.IH) (use ml len1 items Cons.prems(3,4) in simp_all)
        have c: "\<not> ?nv < int (length (filter (\<lambda>p. \<not> snd p) ?ring1))"
          using go stop by blast
        show ?thesis
          using Inr True go c ih items ml st
          by (simp add: Let_def is_speech_ring_buffer split: prod.splits)
      qed
    qed
  qed
qed

text \<open>The floats of the default configuration (a ring of ten entries).\<close>

lemma float_round_ten: "float_round 10 = Finite 10"
  using float_round_small_nat[of 10] by simp

lemma float_of_int_ten: "float_of_int 10 = Inr (Finite 10)"
  by (simp add: float_of_int_def float_round_ten)

lemma start_threshold_ten: "float_mul float_0_8 (Finite 10) = Finite 8"
  by code_simp

lemma product_minus_sixteenth:
  "float_mul (Finite 10) (Finite (- (1 / 16))) = Finite (- (5 / 8))"
  "float_mul (Finite (- (1 / 16))) (Finite 10) = Finite (- (5 / 8))"
  by code_simp+

lemma product_0_9:
  "float_mul (Finite 10) float_0_9 = Finite 9"
  "float_mul float_0_9 (Finite 10) = Finite 9"
  by code_simp+

text \<open>The thresholds of the source at two ordinary ratios: \<open>int(100 * 0.29)\<close> is 28 and
  \<open>int(10 * 0.7)\<close> is 7.\<close>

lemma num_voiced_examples:
  "int_of_float (float_mul (Finite 100) (Finite (5224175567749775 / 18014398509481984))) = Inr 28"
  "int_of_float (float_mul (Finite 10) (Finite (3152519739159347 / 4503599627370496))) = Inr 7"
  by code_simp+

text \<open>
  Claim C1 as stated fails for a ratio whose product with the ring capacity lies strictly
  between -1 and 0: the source compares the count of non-speech entries with
  \<open>int(num_padding_frames * ratio)\<close>, truncated toward zero, not with the product. With the
  default ring of 10 entries, the ratio \<open>-0.0625\<close> (product \<open>-0.625\<close>, computed exactly) and
  eleven speech frames, the machine of the specification closes the segment at the tenth
  frame (0 non-speech entries exceed \<open>-0.625\<close>), while \<open>vad_collector\<close> keeps the segment
  open (0 does not exceed \<open>int(-0.625) = 0\<close>) and yields all eleven frames at the end.
\<close>

theorem vad_collector_negative_ratio_counterexample:
  "fst (vad_collector (default_vad always_speech)
          (map byte_frame [1, 2, 3, 4, 5, 6, 7, 8, 9, 10, 11]) (Finite (- (1 / 16))))
     = [[1, 2, 3, 4, 5, 6, 7, 8, 9, 10, 11]]
   \<and> fst (collect_segments (default_vad always_speech)
          (map byte_frame [1, 2, 3, 4, 5, 6, 7, 8, 9, 10, 11]) (Finite (- (1 / 16))))
     = [[1, 2, 3, 4, 5, 6, 7, 8, 9, 10]]"
  by (simp add: vad_collector_def collect_segments_def ratio_times_capacity_def default_vad_def
        always_speech_def is_speech_def byte_frame_def py_int_def int_of_float_def
        float_of_int_ten float_round_ten start_threshold_ten product_minus_sixteenth
        deque_append_def deque_clear_def join_def ring_push_def Let_def
        del: float_mul.simps)

text \<open>
  Claim C1, amended. For every finite frame sequence and every ratio whose product with
  the ring capacity, computed in double precision as the source computes it, is finite
  and not strictly between -1 and 0, \<open>vad_collector\<close> on an object as the constructor
  builds it (a ring of at most 300 entries) is the two-state machine of the
  specification, started Idle on the ring buffer as the object holds it, with four fifths
  of the capacity as start threshold and that product as stop threshold: it yields the
  same segments in the same order, ends with the same exception if the classifier raises,
  and leaves the same entries in the ring buffer.
\<close>

theorem vad_collector_implements_machine:
  assumes "VADAudio_wf self" "maxlen (ring_buffer self) \<le> 300"
      and "ratio_times_capacity ratio (maxlen (ring_buffer self)) = Finite p"
      and "0 \<le> p \<or> p \<le> - 1"
  shows "vad_collector self frames ratio =
     (case collect_segments self frames ratio of
        (ys, e, ring) \<Rightarrow>
          (ys, e, self\<lparr>ring_buffer := \<lparr>maxlen = maxlen (ring_buffer self), items = ring\<rparr>\<rparr>))"
proof -
  let ?cap = "maxlen (ring_buffer self)"
  have npf: "num_padding_frames self = int ?cap"
    and len: "length (items (ring_buffer self)) \<le> ?cap"
    using assms(1) by (simp_all add: VADAudio_wf_def)
  have conv: "float_of_int (int ?cap) = Inr (Finite (of_nat ?cap))"
    using assms(2) by (rule start_threshold)
  have rnd: "float_round (of_nat ?cap) = Finite (of_nat ?cap)"
    using assms(2) by (rule float_round_small_nat)
  have prod: "float_mul (Finite (of_nat ?cap)) ratio = Finite p"
    using assms(3) by (simp add: ratio_times_capacity_def rnd float_mul_commute)
  have "vad_collector_loop (py_int p) self False [] [] frames =
     (case collect_segments_run (is_speech self) ?cap (Finite p)
             (Idle, items (ring_buffer self)) frames of
        (ys, e, ring) \<Rightarrow>
          ([] @ ys, e, self\<lparr>ring_buffer := \<lparr>maxlen = ?cap, items = ring\<rparr>\<rparr>))"
    by (rule vad_collector_loop_sim) (use len assms(2,4) in simp_all)
  then show ?thesis
    by (simp add: vad_collector_def collect_segments_def npf conv prod assms(3) int_of_float_def)
qed

theorem vad_collector_implements_machine_witness:
  "VADAudio_wf (default_vad nonzero_is_speech)
   \<and> maxlen (ring_buffer (default_vad nonzero_is_speech)) \<le> 300
   \<and> ratio_times_capacity float_0_9 (maxlen (ring_buffer (default_vad nonzero_is_speech))) = Finite 9
   \<and> vad_collector (default_vad nonzero_is_speech)
        (map byte_frame [1, 2, 3, 4, 5, 6, 7, 8, 9, 0, 0, 0, 0, 0, 0, 0, 0, 0, 0, 5]) float_0_9
      = ([[1, 2, 3, 4, 5, 6, 7, 8, 9, 0, 0, 0, 0, 0, 0, 0, 0, 0, 0]], None,
         (default_vad nonzero_is_speech)
           \<lparr>ring_buffer := \<lparr>maxlen = 10, items = [(byte_frame 5, True)]\<rparr>\<rparr>)"
  using vad_collector_implements_machine [of "default_vad nonzero_is_speech" float_0_9 9
          "map byte_frame [1, 2, 3, 4, 5, 6, 7, 8, 9, 0, 0, 0, 0, 0, 0, 0, 0, 0, 0, 5]"]
  by (simp add: VADAudio_wf_def collect_segments_def ratio_times_capacity_def default_vad_def
        nonzero_is_speech_def is_speech_def byte_frame_def ring_push_def Let_def
        float_round_ten product_0_9 del: float_mul.simps)

text \<open>
  Every ratio that is not negative has a product that is not negative, if it is finite.
  An infinite ratio ends the generator at once: \<open>int\<close> of an infinite product raises.
\<close>

lemma nonnegative_ratio_product:
  assumes "0 \<le> r" "ratio_times_capacity (Finite r) cap = Finite p"
  shows "0 \<le> p"
proof (cases "float_round (of_nat cap)")
  case (Finite c)
  have "0 \<le> c" using float_round_nonneg[OF _ Finite] by simp
  then have "0 \<le> r * c" using assms(1) by simp
  moreover have "float_round (r * c) = Finite p"
    using assms(2) Finite by (simp add: ratio_times_capacity_def)
  ultimately show ?thesis by (rule float_round_nonneg)
next
  case PosInf
  then show ?thesis using assms(2) by (simp add: ratio_times_capacity_def split: if_splits)
next
  case NegInf
  then show ?thesis using assms(2) by (simp add: ratio_times_capacity_def split: if_splits)
next
  case NaN
  then show ?thesis using assms(2) by (simp add: ratio_times_capacity_def)
qed

lemma vad_collector_infinite_ratio:
  "vad_collector (default_vad classifier) frames PosInf
     = ([], Some OverflowError, default_vad classifier)"
  by (simp add: vad_collector_def default_vad_def float_of_int_ten int_of_float_def)


section \<open>Text\<close>

lemma py_strip_empty_iff: "py_strip s = [] \<longleftrightarrow> (\<forall>c\<in>set s. py_isspace c)"
proof -
  have "dropWhile py_isspace (rev (dropWhile py_isspace s)) = [] \<longleftrightarrow> dropWhile py_isspace s = []"
  proof
    assume a: "dropWhile py_isspace (rev (dropWhile py_isspace s)) = []"
    show "dropWhile py_isspace s = []"
    proof (rule ccontr)
      assume n: "dropWhile py_isspace s \<noteq> []"
      then have "\<not> py_isspace (hd (dropWhile py_isspace s))" by (rule hd_dropWhile)
      moreover have "hd (dropWhile py_isspace s) \<in> set (rev (dropWhile py_isspace s))"
        using n by simp
      ultimately show False using a by (auto simp: dropWhile_eq_Nil_conv)
    qed
  next
    assume e: "dropWhile py_isspace s = []"
    show "dropWhile py_isspace (rev (dropWhile py_isspace s)) = []" unfolding e by simp
  qed
  then show ?thesis by (simp add: py_strip_def dropWhile_eq_Nil_conv)
qed

text \<open>The substring test finds exactly the contiguous sublists.\<close>

lemma py_in_sublist: "py_in sub s = sublist sub s"
  by (induction s) (auto simp: sublist_Cons_right)

section \<open>The collaborators never raise\<close>

text \<open>
  Claim C6. \<open>transcribe_audio\<close> returns a string that is not empty whatever the service
  does: the fallback \<open>Sorry, I couldn't understand the audio.\<close> when the service raises,
  the fallback \<open>Sorry, I couldn't hear you clearly.\<close> when the stripped text is empty, and
  the stripped text otherwise. \<open>query_llm\<close> returns its fixed fallback when the language
  model raises and the stripped reply otherwise. Neither has an exceptional outcome, and
  a turn ends with a user entry and an assistant entry in the history.
\<close>

theorem collaborators_never_raise:
  "transcribe_audio service file_path \<noteq> []
   \<and> transcribe_audio (\<lambda>path. Inl e) file_path = ''Sorry, I couldn't understand the audio.''
   \<and> transcribe_audio (\<lambda>path. Inr response_text) file_path
        = (if py_strip response_text = [] then ''Sorry, I couldn't hear you clearly.''
           else py_strip response_text)
   \<and> query_llm (\<lambda>content. Inl e') prompt
        = ''I'm sorry, I couldn't generate a response at the moment. Please try again later.''
   \<and> query_llm (\<lambda>content. Inr reply) prompt = py_strip reply
   \<and> (\<exists>h t. history (fst (snd (process_turn world threads s audio_bytes)))
                = h @ [\<lparr>role = ''user'', content = t\<rparr>,
                       \<lparr>role = ''assistant'', content = query_llm (llm world) t\<rparr>]
              \<and> t \<noteq> [])"
proof -
  have "\<exists>h t. history (fst (snd (process_turn world threads s audio_bytes)))
                = h @ [\<lparr>role = ''user'', content = t\<rparr>,
                       \<lparr>role = ''assistant'', content = query_llm (llm world) t\<rparr>]
              \<and> t \<noteq> []"
    by (auto simp: process_turn_def play_response_async_def transcribe_audio_def Let_def
             split: prod.splits option.splits sum.splits)
  then show ?thesis
    by (simp add: transcribe_audio_def query_llm_def Let_def split: sum.splits)
qed

theorem collaborators_never_raise_witness:
  "transcribe_audio (\<lambda>path. Inr ''   '') ''/tmp/tmp0.wav'' = ''Sorry, I couldn't hear you clearly.''
   \<and> transcribe_audio (\<lambda>path. Inl APIError) ''/tmp/tmp0.wav''
        = ''Sorry, I couldn't understand the audio.''
   \<and> query_llm (\<lambda>content. Inl Exception) ''hello''
        = ''I'm sorry, I couldn't generate a response at the moment. Please try again later.''"
  using collaborators_never_raise [of "\<lambda>path. Inl APIError" "''/tmp/tmp0.wav''" APIError
          "''   ''" Exception "''hello''" "''ok''" example_turn_world "[]"
          "fresh_session (default_listener always_speech)" "[]"]
  by (simp add: py_strip_def py_isspace_def)

section \<open>Blank text is not synthesised\<close>

text \<open>
  Claim C10. For a text that is empty or holds white space only, \<open>generate_speech\<close> (and
  \<open>speak_text\<close>, the same function) returns \<open>None\<close> and makes no synthesis request, so no
  output file is written.
\<close>

theorem generate_speech_blank_text:
  assumes "\<forall>c\<in>set text. py_isspace c"
  shows "generate_speech world text opts = (PyNone, [])
       \<and> speak_text world text = (PyNone, [])"
  using assms by (simp add: generate_speech_def speak_text_def py_strip_empty_iff)

theorem generate_speech_blank_text_witness:
  "list_all py_isspace [CHR '' '', CHR 0x09, CHR 0x0A]
   \<and> generate_speech example_tts_world [CHR '' '', CHR 0x09, CHR 0x0A] default_options = (PyNone, [])
   \<and> speak_text example_tts_world [CHR '' '', CHR 0x09, CHR 0x0A] = (PyNone, [])"
  using generate_speech_blank_text [of "[CHR '' '', CHR 0x09, CHR 0x0A]" example_tts_world default_options]
  by (simp add: py_isspace_def)

text \<open>A text that is not blank is cleaned and synthesised.\<close>

lemma generate_speech_example:
  "generate_speech example_tts_world ''**Hi** there'' default_options
     = (PyStr ''tts_output/0f.wav'',
        [[(''text'', PyStr ''Hi there''), (''save_as'', PyStr ''tts_output/0f.wav''),
          (''sample_rate'', PyInt 24000), (''speed'', PyFloat 1), (''voice_id'', PyStr ''emily''),
          (''model'', PyStr ''lightning'')]])"
  by (simp add: generate_speech_def example_tts_world_def default_options_def py_strip_def
        py_isspace_def clean_text_for_tts_def os_path_join_def TTS_OUTPUT_DIR_def Let_def)

section \<open>Merging a continuation into the previous turn\<close>

lemma play_response_async_history:
  "history (fst (snd (play_response_async threads s text))) = history s"
  by (simp add: play_response_async_def Let_def split: option.splits prod.splits)

lemma user_entries_merge:
  assumes "h \<noteq> []" "role (last h) = ''user''"
  shows "length (user_entries (butlast h @ [\<lparr>role = ''user'', content = x\<rparr>,
                                             \<lparr>role = ''assistant'', content = y\<rparr>]))
           = length (user_entries h)"
proof -
  have "user_entries h = user_entries (butlast h @ [last h])" using assms(1) by simp
  also have "\<dots> = user_entries (butlast h) @ [last h]"
    using assms(2) by (simp add: user_entries_def)
  finally show ?thesis by (simp add: user_entries_def)
qed

text \<open>
  Claim C3 as stated fails: a previous user entry whose content is empty is never merged
  into, whatever the new text contains (\<open>_is_followup\<close> returns early on an empty
  \<open>last_input\<close>). Here the previous entry exists and is the user's, the new text contains
  \<open>and\<close>, and the turn appends a second user entry.
\<close>

theorem process_turn_empty_previous_counterexample:
  "history ((fresh_session (default_listener always_speech))
              \<lparr>history := [\<lparr>role = ''user'', content = []\<rparr>]\<rparr>) \<noteq> []
   \<and> role (last (history ((fresh_session (default_listener always_speech))
              \<lparr>history := [\<lparr>role = ''user'', content = []\<rparr>]\<rparr>))) = ''user''
   \<and> py_in ''and'' (py_lower ''and also explain that'')
   \<and> history (fst (snd (process_turn example_turn_world []
         ((fresh_session (default_listener always_speech))
              \<lparr>history := [\<lparr>role = ''user'', content = []\<rparr>]\<rparr>) [])))
       = [\<lparr>role = ''user'', content = []\<rparr>,
          \<lparr>role = ''user'', content = ''and also explain that''\<rparr>,
          \<lparr>role = ''assistant'', content = ''Sure.''\<rparr>]"
  by (simp add: process_turn_def play_response_async_def fresh_session_def example_turn_world_def
        transcribe_audio_def query_llm_def is_followup_def py_strip_def py_isspace_def
        py_lower_def py_lower_char_def Let_def)

text \<open>
  Claim C3, amended. The new transcription is merged into the immediately preceding
  history entry exactly when that entry exists, has role \<open>user\<close>, has a content that is
  not empty, and the lower-cased new text contains one of the keywords \<open>also\<close>, \<open>and\<close>,
  \<open>by the way\<close>, \<open>what about\<close>, \<open>continue\<close>. Merging replaces the previous entry by one
  whose content is the previous text, a space and the new text, so the number of user
  entries stays the same; in every other case the new text is appended as a new user
  entry. The reply of the language model to the (merged) text follows as assistant entry.
\<close>

theorem process_turn_history:
  "history (fst (snd (process_turn world threads s audio_bytes))) =
     (let t = transcribe_audio (\<lambda>path. stt world audio_bytes) (wav_path world);
          h = history s
      in if is_continuation h t
         then butlast h @ [\<lparr>role = ''user'', content = content (last h) @ '' '' @ t\<rparr>,
                           \<lparr>role = ''assistant'',
                            content = query_llm (llm world) (content (last h) @ '' '' @ t)\<rparr>]
         else h @ [\<lparr>role = ''user'', content = t\<rparr>,
                   \<lparr>role = ''assistant'', content = query_llm (llm world) t\<rparr>])
   \<and> length (user_entries (history (fst (snd (process_turn world threads s audio_bytes)))))
       = (if is_continuation (history s)
               (transcribe_audio (\<lambda>path. stt world audio_bytes) (wav_path world))
          then length (user_entries (history s))
          else Suc (length (user_entries (history s))))"
proof -
  let ?t = "transcribe_audio (\<lambda>path. stt world audio_bytes) (wav_path world)"
  let ?h = "history s"
  have eq: "history (fst (snd (process_turn world threads s audio_bytes))) =
     (if is_continuation ?h ?t
      then butlast ?h @ [\<lparr>role = ''user'', content = content (last ?h) @ '' '' @ ?t\<rparr>,
                         \<lparr>role = ''assistant'',
                          content = query_llm (llm world) (content (last ?h) @ '' '' @ ?t)\<rparr>]
      else ?h @ [\<lparr>role = ''user'', content = ?t\<rparr>,
                 \<lparr>role = ''assistant'', content = query_llm (llm world) ?t\<rparr>])"
    by (simp add: process_turn_def play_response_async_history is_followup_def py_in_sublist
          is_continuation_def Let_def split: prod.splits)
  have cnt: "length (user_entries (history (fst (snd (process_turn world threads s audio_bytes)))))
       = (if is_continuation ?h ?t then length (user_entries ?h)
          else Suc (length (user_entries ?h)))"
  proof (cases "is_continuation ?h ?t")
    case True
    then have "?h \<noteq> []" "role (last ?h) = ''user''" by (simp_all add: is_continuation_def)
    from user_entries_merge[OF this] True show ?thesis by (simp only: eq if_True)
  next
    case False
    then show ?thesis by (simp add: eq user_entries_def)
  qed
  show ?thesis using eq cnt by (simp add: Let_def)
qed

theorem process_turn_history_witness:
  "is_continuation [\<lparr>role = ''user'', content = ''what is a derivative''\<rparr>] ''and also explain that''
   \<and> history (fst (snd (process_turn example_turn_world []
         ((fresh_session (default_listener always_speech))
              \<lparr>history := [\<lparr>role = ''user'', content = ''what is a derivative''\<rparr>]\<rparr>) [])))
       = [\<lparr>role = ''user'', content = ''what is a derivative and also explain that''\<rparr>,
          \<lparr>role = ''assistant'', content = ''Sure.''\<rparr>]"
  using process_turn_history [of example_turn_world "[]"
          "(fresh_session (default_listener always_speech))
              \<lparr>history := [\<lparr>role = ''user'', content = ''what is a derivative''\<rparr>]\<rparr>" "[]"]
  by (simp add: is_continuation_def py_in_sublist[symmetric] fresh_session_def
        example_turn_world_def transcribe_audio_def query_llm_def py_strip_def py_isspace_def
        py_lower_def py_lower_char_def Let_def)

section \<open>One playback thread per session\<close>

lemma alive_count_le1:
  assumes "\<forall>t < length th. snd (th ! t) \<longrightarrow> t = k"
  shows "length (filter snd th) \<le> 1"
proof -
  have "{i. i < length th \<and> snd (th ! i)} \<subseteq> {k}" using assms by auto
  then have "card {i. i < length th \<and> snd (th ! i)} \<le> card {k}"
    by (intro card_mono) auto
  then show ?thesis by (simp add: length_filter_conv_card)
qed

lemma alive_count_0:
  assumes "\<forall>t < length th. \<not> snd (th ! t)"
  shows "filter snd th = []"
proof -
  have "\<not> snd x" if "x \<in> set th" for x
  proof -
    from that obtain i where "i < length th" "th ! i = x" by (auto simp: in_set_conv_nth)
    then show ?thesis using assms by auto
  qed
  then show ?thesis by (auto simp: filter_empty_conv)
qed

lemma one_playback_count:
  assumes "one_playback th s"
  shows "length (filter snd th) \<le> 1"
proof (cases "playback_thread s")
  case None
  then have "\<forall>t < length th. \<not> snd (th ! t)" using assms by (auto simp: one_playback_def)
  then show ?thesis by (simp add: alive_count_0)
next
  case (Some k)
  then have "\<forall>t < length th. snd (th ! t) \<longrightarrow> t = k" using assms by (auto simp: one_playback_def)
  then show ?thesis by (rule alive_count_le1)
qed

lemma play_response_async_result:
  assumes "one_playback th s"
  shows "case play_response_async th s reply of (th', s', eff) \<Rightarrow>
           length th' = Suc (length th)
         \<and> th' ! length th = (reply, True)
         \<and> (\<forall>t < length th. \<not> snd (th' ! t))
         \<and> playback_thread s' = Some (length th)
         \<and> history s' = history s"
proof (cases "\<exists>k. playback_thread s = Some k \<and> is_alive th k")
  case True
  then obtain k where k: "playback_thread s = Some k" "is_alive th k" by auto
  have others: "\<not> snd (th ! t)" if "t < length th" "t \<noteq> k" for t
    using assms that k(1) by (auto simp: one_playback_def)
  have "\<not> snd ((th[k := (fst (th ! k), False)]) ! t)" if "t < length th" for t
    using that others by (cases "t = k") (simp_all add: nth_list_update)
  then show ?thesis
    using k by (simp add: play_response_async_def Let_def nth_append)
next
  case False
  have none: "\<not> snd (th ! t)" if "t < length th" for t
  proof
    assume a: "snd (th ! t)"
    then have "playback_thread s = Some t" using assms that by (simp add: one_playback_def)
    then show False using False a that by (simp add: is_alive_def)
  qed
  show ?thesis
  proof (cases "playback_thread s")
    case None
    then show ?thesis using none by (simp add: play_response_async_def Let_def nth_append)
  next
    case (Some k)
    then have "\<not> is_alive th k" using False by simp
    then show ?thesis using Some none
      by (simp add: play_response_async_def Let_def nth_append)
  qed
qed

lemma play_response_async_inv:
  assumes "one_playback th s"
  shows "case play_response_async th s reply of (th', s', eff) \<Rightarrow> one_playback th' s'"
  using play_response_async_result[OF assms, of reply]
  by (auto simp: one_playback_def less_Suc_eq split: prod.splits)

lemma process_turn_inv:
  assumes "one_playback th s"
  shows "case process_turn world th s audio of (th', s', eff) \<Rightarrow> one_playback th' s'"
proof -
  have "\<And>h. one_playback th (s\<lparr>history := h\<rparr>)" using assms by (simp add: one_playback_def)
  then show ?thesis
    using play_response_async_inv
    by (simp add: process_turn_def Let_def split: prod.splits)
qed

lemma playback_step_inv:
  assumes "one_playback (fst st) (snd st)"
  shows "one_playback (fst (playback_step st ev)) (snd (playback_step st ev))"
proof (cases st)
  case (Pair th s)
  then have inv: "one_playback th s" using assms by simp
  show ?thesis
  proof (cases ev)
    case (Play reply)
    then show ?thesis using play_response_async_inv[OF inv, of reply] Pair
      by (auto split: prod.splits)
  next
    case (Turn world audio)
    then show ?thesis using process_turn_inv[OF inv, of world audio] Pair
      by (auto split: prod.splits)
  next
    case Playback_begins
    then show ?thesis using inv Pair by (simp add: playback_begins_def one_playback_def)
  next
    case (Playback_ends t)
    then show ?thesis using inv Pair
      by (auto simp: playback_ends_def one_playback_def nth_list_update)
  qed
qed

lemma playback_run_inv:
  assumes "one_playback (fst st) (snd st)"
  shows "one_playback (fst (playback_run st events)) (snd (playback_run st events))"
  using assms unfolding playback_run_def
  by (induction events arbitrary: st) (simp_all add: playback_step_inv)

text \<open>
  Claim C8. Starting from a state in which the session's handle knows every playback
  thread that is alive (as when none has been started yet), and whatever playbacks and
  turns the coordinator starts, one after the other, and whenever playback threads take
  their first step or end: at most one playback thread of the session is alive. When a
  playback is started then, exactly one is alive afterwards, the new one; and if the
  previous one was still alive, the stop flag has been set and the previous thread joined
  (it has ended) before the new thread is started.
\<close>

theorem one_playback_task:
  assumes "one_playback threads s"
  shows "length (filter snd (fst (playback_run (threads, s) events))) \<le> 1
       \<and> (let th = fst (playback_run (threads, s) events);
               ss = snd (playback_run (threads, s) events);
               th' = fst (play_response_async th ss reply);
               ss' = fst (snd (play_response_async th ss reply));
               effects = snd (snd (play_response_async th ss reply))
           in length (filter snd th') = 1
            \<and> is_alive th' (length th) \<and> playback_thread ss' = Some (length th)
            \<and> (\<forall>t. playback_thread ss = Some t \<and> is_alive th t \<longrightarrow>
                   effects = [Info ''Waiting for previous playback to finish...'',
                              Thread_join t, Thread_start ''playback'']
                 \<and> stop_tts_flag ss' \<and> \<not> is_alive th' t))"
proof -
  obtain th ss where run: "playback_run (threads, s) events = (th, ss)" by (cases "playback_run (threads, s) events")
  have inv: "one_playback th ss"
    using playback_run_inv[of "(threads, s)" events] assms run by simp
  obtain th' ss' effects where play: "play_response_async th ss reply = (th', ss', effects)"
    by (cases "play_response_async th ss reply")
  from play_response_async_result[OF inv, of reply] play
  have r: "length th' = Suc (length th)" "th' ! length th = (reply, True)"
          "\<forall>t < length th. \<not> snd (th' ! t)" "playback_thread ss' = Some (length th)"
    by simp_all
  have "th' = take (length th) th' @ [th' ! length th]"
    using r(1) by (metis lessI take_Suc_conv_app_nth take_all order_refl)
  moreover have "filter snd (take (length th) th') = []"
    by (rule alive_count_0) (use r(1,3) in simp)
  ultimately have "filter snd th' = [th' ! length th]"
    using r(2) by (metis append_Nil filter.simps(1,2) filter_append snd_conv)
  then have one: "length (filter snd th') = 1" by simp
  have alive: "is_alive th' (length th)" using r(1,2) by (simp add: is_alive_def)
  have joined: "effects = [Info ''Waiting for previous playback to finish...'',
                          Thread_join t, Thread_start ''playback'']
                \<and> stop_tts_flag ss' \<and> \<not> is_alive th' t"
    if "playback_thread ss = Some t" "is_alive th t" for t
  proof -
    have "t < length th" using that(2) by (simp add: is_alive_def)
    then have "\<not> is_alive th' t" using r(3) by (simp add: is_alive_def)
    moreover have "effects = [Info ''Waiting for previous playback to finish...'',
                          Thread_join t, Thread_start ''playback''] \<and> stop_tts_flag ss'"
      using play that by (auto simp: play_response_async_def Let_def)
    ultimately show ?thesis by simp
  qed
  show ?thesis
    using one_playback_count[OF inv] one alive r(4) joined
    by (simp add: run play Let_def)
qed

theorem one_playback_task_witness:
  "one_playback [] (fresh_session (default_listener always_speech))
   \<and> length (filter snd (fst (playback_run ([], fresh_session (default_listener always_speech))
                                [Play ''one'', Playback_begins, Play ''two'']))) \<le> 1
   \<and> length (filter snd (fst (play_response_async
         (fst (playback_run ([], fresh_session (default_listener always_speech))
                 [Play ''one'', Playback_begins, Play ''two'']))
         (snd (playback_run ([], fresh_session (default_listener always_speech))
                 [Play ''one'', Playback_begins, Play ''two''])) ''three''))) = 1"
  using one_playback_task [of "[]" "fresh_session (default_listener always_speech)"
          "[Play ''one'', Playback_begins, Play ''two'']" "''three''"]
  by (simp add: one_playback_def Let_def)

text \<open>Two playbacks in a row: the first thread has ended when the second runs.\<close>

lemma playback_run_example:
  "playback_run ([], fresh_session (default_listener always_speech))
       [Play ''one'', Playback_begins, Play ''two'']
     = ([(''one'', False), (''two'', True)],
        (fresh_session (default_listener always_speech))
          \<lparr>stop_tts_flag := True, playback_thread := Some 1\<rparr>)"
  by (simp add: playback_run_def play_response_async_def playback_begins_def is_alive_def
        fresh_session_def Let_def)

section \<open>The end of an utterance\<close>

lemma deque_append_window:
  assumes "length (items d) \<le> maxlen d"
  shows "deque_append d x = d\<lparr>items := last_elems (maxlen d) (items d @ [x])\<rparr>"
  using assms
  by (cases "items d") (auto simp: deque_append_def last_elems_def)

lemma list_ex_id: "list_ex (\<lambda>b. b) w = (True \<in> set w)"
  by (induction w) auto

text \<open>
  Claim C2. While the session is listening and the queue delivers a block (the sliding
  window holding no more than its fixed size), one pass of the loop appends the block to
  the accumulated buffer and pushes the current speaking flag into the sliding window,
  which then holds the most recent flags up to its size. If any entry of the window is
  true, the silence start is unset. Otherwise, an unset silence start is set to the
  current time; a silence start at least 0.8 seconds old finalizes the utterance: the
  snapshot of the accumulated buffer goes to turn processing, and the accumulated buffer,
  the sliding window (and the rolling buffer of the listener) are cleared and the silence
  start is unset; a younger silence start is kept.
\<close>

theorem run_loop_iteration_listening:
  assumes "audio_queue (listener s) = audio_chunk # queue"
      and "length (items (sliding_window s)) \<le> maxlen (sliding_window s)"
  shows "run_loop_iteration world now (threads, s, buf, silence) =
     (let window = last_elems (maxlen (sliding_window s))
                     (items (sliding_window s) @ [speech_detected (listener s)]);
          s1 = s\<lparr>listener := (listener s)\<lparr>audio_queue := queue\<rparr>,
                 sliding_window := (sliding_window s)\<lparr>items := window\<rparr>\<rparr>
      in if True \<in> set window then ((threads, s1, buf @ audio_chunk, None), [])
         else (case silence of
                 None \<Rightarrow> ((threads, s1, buf @ audio_chunk, Some now), [])
               | Some t0 \<Rightarrow>
                   if now - t0 \<ge> 4 / 5
                   then (case process_turn world threads
                                (s1\<lparr>listener := (listener s1)\<lparr>buffer := []\<rparr>,
                                    sliding_window := (sliding_window s)\<lparr>items := []\<rparr>\<rparr>)
                                (buf @ audio_chunk) of
                           (threads', s3, effects) \<Rightarrow>
                             ((threads', s3, [], None),
                              Info ''Silence detected, processing turn...'' # effects))
                   else ((threads, s1, buf @ audio_chunk, Some t0), [])))"
  using assms
  by (simp add: run_loop_iteration_def deque_append_window list_ex_id barge_in_detected_def
        reset_buffer_def deque_clear_def Let_def split: option.splits)


theorem run_loop_iteration_listening_witness:
  "audio_queue (listener (fresh_session ((default_listener always_speech)\<lparr>audio_queue := [[1, 2]]\<rparr>)))
     = [1, 2] # []
   \<and> length (items (sliding_window
         (fresh_session ((default_listener always_speech)\<lparr>audio_queue := [[1, 2]]\<rparr>))))
       \<le> maxlen (sliding_window
         (fresh_session ((default_listener always_speech)\<lparr>audio_queue := [[1, 2]]\<rparr>)))
   \<and> run_loop_iteration example_turn_world 1
         ([], fresh_session ((default_listener always_speech)\<lparr>audio_queue := [[1, 2]]\<rparr>),
          [9], Some 0)
       = (([(''Sure.'', True)],
           (fresh_session (default_listener always_speech))
             \<lparr>history := [\<lparr>role = ''user'', content = ''and also explain that''\<rparr>,
                          \<lparr>role = ''assistant'', content = ''Sure.''\<rparr>],
              playback_thread := Some 0\<rparr>,
           [], None),
          [Info ''Silence detected, processing turn...'', Thread_start ''playback''])"
  using run_loop_iteration_listening
          [of "fresh_session ((default_listener always_speech)\<lparr>audio_queue := [[1, 2]]\<rparr>)"
              "[1, 2]" "[]" example_turn_world 1 "[]" "[9]" "Some 0"]
  by (simp add: fresh_session_def default_listener_def last_elems_def process_turn_def
        play_response_async_def example_turn_world_def transcribe_audio_def query_llm_def
        py_strip_def py_isspace_def Let_def)

text \<open>Without a block (the queue stays empty for the time-out) the pass changes nothing.\<close>

lemma run_loop_iteration_timeout:
  assumes "audio_queue (listener s) = []"
  shows "run_loop_iteration world now (threads, s, buf, silence) = ((threads, s, buf, silence), [])"
  using assms by (simp add: run_loop_iteration_def)


end
